theory Spec2Isabelle
  imports Main
begin

section \<open>Artist credit parser (\<^verbatim>\<open>parse_artists\<close>)\<close>

text \<open>
  Python strings are modelled as \<^typ>\<open>string\<close>, that is lists of 8-bit characters: the
  development covers credit strings whose code points are below 256.  On that range
  \<^verbatim>\<open>\s\<close> of the \<^verbatim>\<open>re\<close> module and \<^verbatim>\<open>str.strip()\<close> use one and the same whitespace
  test, and the \<^verbatim>\<open>IGNORECASE\<close> flag identifies an ASCII pattern letter with its two
  ASCII cases only.
\<close>

definition is_space :: "char \<Rightarrow> bool" where
  "is_space c \<longleftrightarrow> c \<in> set [CHR 0x09, CHR 0x0A, CHR 0x0B, CHR 0x0C, CHR 0x0D,
     CHR 0x1C, CHR 0x1D, CHR 0x1E, CHR 0x1F, CHR 0x20, CHR 0x85, CHR 0xA0]"

definition lower_char :: "char \<Rightarrow> char" where
  "lower_char c =
     (case map_of (zip ''ABCDEFGHIJKLMNOPQRSTUVWXYZ'' ''abcdefghijklmnopqrstuvwxyz'') c of
        Some l \<Rightarrow> l | None \<Rightarrow> c)"

definition char_eq :: "bool \<Rightarrow> char \<Rightarrow> char \<Rightarrow> bool" where
  "char_eq ic p x = (if ic then lower_char x = lower_char p else x = p)"

text \<open>
  The fragment of regular expressions the source uses: \<^verbatim>\<open>\s+\<close> (\<open>Ws\<close>), a literal
  character (\<open>Lit\<close>) and an optional literal character (\<open>Opt\<close>, as in \<^verbatim>\<open>\.?\<close>).
  \<open>rmatch ic pat s\<close> anchors \<open>pat\<close> at the head of \<open>s\<close> and returns the text left after
  the match the backtracking engine finds first: both quantifiers are greedy, so the
  longer alternative is tried before the shorter one.
\<close>

datatype atom = Ws | Lit char | Opt char

fun rmatch :: "bool \<Rightarrow> atom list \<Rightarrow> string \<Rightarrow> string option" where
  "rmatch ic [] s = Some s"
| "rmatch ic (Lit p # r) [] = None"
| "rmatch ic (Lit p # r) (x # xs) = (if char_eq ic p x then rmatch ic r xs else None)"
| "rmatch ic (Opt p # r) [] = rmatch ic r []"
| "rmatch ic (Opt p # r) (x # xs) =
     (if char_eq ic p x
      then (case rmatch ic r xs of Some t \<Rightarrow> Some t | None \<Rightarrow> rmatch ic r (x # xs))
      else rmatch ic r (x # xs))"
| "rmatch ic (Ws # r) [] = None"
| "rmatch ic (Ws # r) (x # xs) =
     (if is_space x
      then (case rmatch ic (Ws # r) xs of Some t \<Rightarrow> Some t | None \<Rightarrow> rmatch ic r xs)
      else None)"

text \<open>
  \<^verbatim>\<open>re.sub(pattern, repl, s)\<close>: scan from the left; where the pattern matches, emit the
  replacement and go on after the match, otherwise copy one character.  Every pattern of
  the source begins with \<^verbatim>\<open>\s+\<close> and so consumes at least one character; the guard
  \<open>length rest < length s\<close> records that.
\<close>

function re_sub :: "bool \<Rightarrow> atom list \<Rightarrow> string \<Rightarrow> string \<Rightarrow> string" where
  "re_sub ic pat repl [] = []"
| "re_sub ic pat repl (c # cs) =
     (case rmatch ic pat (c # cs) of
        None \<Rightarrow> c # re_sub ic pat repl cs
      | Some rest \<Rightarrow>
          if length rest < length (c # cs) then repl @ re_sub ic pat repl rest
          else c # re_sub ic pat repl cs)"
  by pat_completeness auto
termination
  by (relation "measure (\<lambda>(ic, pat, repl, s). length s)") auto

definition lits :: "string \<Rightarrow> atom list" where
  "lits w = map Lit w"

text \<open>The six patterns of the list \<^verbatim>\<open>patterns\<close>, in the source's order.\<close>

definition patterns :: "atom list list" where
  "patterns =
     [ Ws # lits ''feat'' @ [Opt CHR ''.'', Ws],
       Ws # lits ''ft'' @ [Opt CHR ''.'', Ws],
       Ws # lits ''featuring'' @ [Ws],
       Ws # lits ''Feat'' @ [Opt CHR ''.'', Ws],
       Ws # lits ''Ft'' @ [Opt CHR ''.'', Ws],
       Ws # lits ''Featuring'' @ [Ws] ]"

definition amp_pattern :: "atom list" where
  "amp_pattern = Ws # lits ''&'' @ [Ws]"

definition and_pattern :: "atom list" where
  "and_pattern = Ws # lits ''and'' @ [Ws]"

text \<open>\<^verbatim>\<open>str.split(',')\<close>: always at least one piece.\<close>

fun split_on :: "char \<Rightarrow> string \<Rightarrow> string list" where
  "split_on d [] = [[]]"
| "split_on d (c # cs) =
     (if c = d then [] # split_on d cs
      else (case split_on d cs of [] \<Rightarrow> [[c]] | piece # pieces \<Rightarrow> (c # piece) # pieces))"

definition strip :: "string \<Rightarrow> string" where
  "strip s = rev (dropWhile is_space (rev (dropWhile is_space s)))"

definition rewrite_seps :: "string \<Rightarrow> string" where
  "rewrite_seps s =
     re_sub True and_pattern '', ''
       (re_sub False amp_pattern '', ''
          (fold (\<lambda>pattern result. re_sub True pattern '', '' result) patterns s))"

definition parse_artists :: "string \<Rightarrow> string list" where
  "parse_artists artist_string =
     (if artist_string = [] then []
      else filter (\<lambda>a. a \<noteq> [])
             (map strip (split_on CHR '','' (rewrite_seps artist_string))))"

text \<open>\<^verbatim>\<open>';'.join(artists_list)\<close>\<close>

fun join_semicolon :: "string list \<Rightarrow> string" where
  "join_semicolon [] = []"
| "join_semicolon [a] = a"
| "join_semicolon (a # b # bs) = a @ CHR '';'' # join_semicolon (b # bs)"

definition format_artists_to_semicolon :: "string list \<Rightarrow> string" where
  "format_artists_to_semicolon artists_list = join_semicolon artists_list"

section \<open>Notions for reasoning about the parser\<close>

text \<open>
  Every pattern of the source has the form \<^verbatim>\<open>\s+\<close> token \<^verbatim>\<open>\s+\<close>, with \<^verbatim>\<open>\.?\<close> after some
  tokens: \<open>sep_pat tok dot\<close>.  Such a pattern is matched by a run of whitespace, one whole
  word and the run of whitespace after it.  \<open>tok_ok ic tok dot w\<close> tells whether the word
  \<open>w\<close> is the token, with or without the optional dot; \<open>wmatch\<close> reads a match word by word,
  \<open>wm\<close> tells that there is one at the head of the text, \<open>wrest\<close> is the text left after it,
  and \<open>wsub\<close> is the substitution pass.  They are devices of the proofs: \<open>rmatch\<close> and
  \<open>re_sub\<close> on the patterns of the source are proved equal to them below.
\<close>

abbreviation nsp :: "char \<Rightarrow> bool" where
  "nsp c \<equiv> \<not> is_space c"

definition sep_pat :: "string \<Rightarrow> bool \<Rightarrow> atom list" where
  "sep_pat tok dot = Ws # lits tok @ (if dot then [Opt CHR ''.''] else []) @ [Ws]"

definition tok_ok :: "bool \<Rightarrow> string \<Rightarrow> bool \<Rightarrow> string \<Rightarrow> bool" where
  "tok_ok ic tok dot w \<longleftrightarrow>
     list_all2 (char_eq ic) tok w \<or>
     (dot \<and> w \<noteq> [] \<and> last w = CHR ''.'' \<and> list_all2 (char_eq ic) tok (butlast w))"

definition wmatch :: "(string \<Rightarrow> bool) \<Rightarrow> string \<Rightarrow> string option" where
  "wmatch ok s =
     (let t = dropWhile is_space s;
          w = takeWhile (\<lambda>c. \<not> is_space c) t;
          r = dropWhile (\<lambda>c. \<not> is_space c) t
      in if t \<noteq> s \<and> ok w \<and> r \<noteq> [] then Some (dropWhile is_space r) else None)"

definition wm :: "(string \<Rightarrow> bool) \<Rightarrow> string \<Rightarrow> bool" where
  "wm ok s \<longleftrightarrow> wmatch ok s \<noteq> None"

definition wrest :: "string \<Rightarrow> string" where
  "wrest s = dropWhile is_space (dropWhile nsp (dropWhile is_space s))"

function wsub :: "(string \<Rightarrow> bool) \<Rightarrow> string \<Rightarrow> string" where
  "wsub ok [] = []"
| "wsub ok (c # cs) =
     (case wmatch ok (c # cs) of
        None \<Rightarrow> c # wsub ok cs
      | Some rest \<Rightarrow>
          if length rest < length (c # cs) then '', '' @ wsub ok rest
          else c # wsub ok cs)"
  by pat_completeness auto
termination
  by (relation "measure (\<lambda>(ok, s). length s)") auto

text \<open>The word tests of the eight substitutions, in the order the source applies them.\<close>

definition sep_oks :: "(string \<Rightarrow> bool) list" where
  "sep_oks =
     [tok_ok True ''feat'' True, tok_ok True ''ft'' True, tok_ok True ''featuring'' False,
      tok_ok True ''Feat'' True, tok_ok True ''Ft'' True, tok_ok True ''Featuring'' False,
      tok_ok False ''&'' False, tok_ok True ''and'' False]"


fun guarded :: "(string \<Rightarrow> bool) \<Rightarrow> bool \<Rightarrow> string \<Rightarrow> bool" where
  "guarded ok b [] = True"
| "guarded ok b (c # cs) = ((wm ok (c # cs) \<longrightarrow> b) \<and> guarded ok (c = CHR '','' \<or> is_space c) cs)"

fun anym :: "(string \<Rightarrow> bool) \<Rightarrow> string \<Rightarrow> bool" where
  "anym ok [] = False"
| "anym ok (c # cs) = (wm ok (c # cs) \<or> anym ok cs)"

text \<open>
  \<open>pieces\<close> is the last step of \<^verbatim>\<open>parse_artists\<close>: split at the commas, trim, drop what is
  empty.  A name is \<open>tidy\<close> when it is what the parser returns for itself.
\<close>

definition pieces :: "string \<Rightarrow> string list" where
  "pieces r = filter (\<lambda>a. a \<noteq> []) (map strip (split_on CHR '','' r))"

definition tidy :: "string \<Rightarrow> bool" where
  "tidy p \<longleftrightarrow> p \<noteq> [] \<and> nsp (hd p) \<and> nsp (last p) \<and> CHR '','' \<notin> set p \<and>
     (\<forall>ok\<in>set sep_oks. \<not> anym ok p)"

text \<open>
  The eight substitutions of \<^verbatim>\<open>parse_artists\<close> with their \<^verbatim>\<open>IGNORECASE\<close> flag, in the order of
  the source; \<open>occurs\<close> is \<^verbatim>\<open>re.search\<close>: the pattern matches at some position of the text.
\<close>

definition separator_patterns :: "(bool \<times> atom list) list" where
  "separator_patterns = map (Pair True) patterns @ [(False, amp_pattern), (True, and_pattern)]"

fun occurs :: "bool \<Rightarrow> atom list \<Rightarrow> string \<Rightarrow> bool" where
  "occurs ic pat [] = (rmatch ic pat [] \<noteq> None)"
| "occurs ic pat (c # cs) = (rmatch ic pat (c # cs) \<noteq> None \<or> occurs ic pat cs)"

definition has_separator :: "string \<Rightarrow> bool" where
  "has_separator s \<longleftrightarrow> list_ex (\<lambda>(ic, pat). occurs ic pat s) separator_patterns"



section \<open>Audio files and their tag adapters\<close>

datatype audio_kind = MP4 | FLAC | OggVorbis | MP3 | AIFF | WAVE | OtherAudio

record audio =
  kind :: audio_kind
  tags :: "string \<rightharpoonup> string list"
  frames :: "(string \<rightharpoonup> string) option"

definition first_value :: "string list option \<Rightarrow> string option" where
  "first_value vs = (case vs of None \<Rightarrow> None | Some [] \<Rightarrow> None | Some (v # _) \<Rightarrow> Some v)"

definition frame_text :: "audio \<Rightarrow> string \<Rightarrow> string option" where
  "frame_text audio_file key = (case frames audio_file of None \<Rightarrow> None | Some f \<Rightarrow> f key)"

definition is_native_list :: "audio_kind \<Rightarrow> bool" where
  "is_native_list k \<longleftrightarrow> k = FLAC \<or> k = OggVorbis"

definition get_current_artist :: "audio \<Rightarrow> string option" where
  "get_current_artist audio_file =
     (case kind audio_file of
        MP4 \<Rightarrow> first_value (tags audio_file [CHR 0xA9, CHR ''A'', CHR ''R'', CHR ''T''])
      | FLAC \<Rightarrow> first_value (tags audio_file ''artist'')
      | OggVorbis \<Rightarrow> first_value (tags audio_file ''artist'')
      | MP3 \<Rightarrow> frame_text audio_file ''TPE1''
      | AIFF \<Rightarrow> frame_text audio_file ''TPE1''
      | WAVE \<Rightarrow> frame_text audio_file ''TPE1''
      | OtherAudio \<Rightarrow> None)"

definition get_current_album_artist :: "audio \<Rightarrow> string option" where
  "get_current_album_artist audio_file =
     (case kind audio_file of
        MP4 \<Rightarrow> first_value (tags audio_file ''aART'')
      | FLAC \<Rightarrow> first_value (tags audio_file ''albumartist'')
      | OggVorbis \<Rightarrow> first_value (tags audio_file ''albumartist'')
      | MP3 \<Rightarrow> frame_text audio_file ''TPE2''
      | AIFF \<Rightarrow> frame_text audio_file ''TPE2''
      | WAVE \<Rightarrow> frame_text audio_file ''TPE2''
      | OtherAudio \<Rightarrow> None)"

text \<open>
  A sidecar document is a tree of elements (tag, text, children); what a path holds on
  disk is an audio file the tag library understands, a well-formed XML document, or
  anything else.
\<close>

datatype elem = Elem (etag: string) (etext: "string option") (children: "elem list")

datatype content = AudioData audio | XmlData elem | OtherData

text \<open>
  What the run cannot decide by itself is a parameter: the text of
  \<^verbatim>\<open>datetime.now().strftime("%Y%m%d_%H%M%S")\<close> at the moment a file's backup is taken, and
  whether a call into the tag library, \<^verbatim>\<open>shutil.copy2\<close> or the final save raises.  A save
  that raises may leave any content behind (\<open>torn\<close>; \<open>None\<close> when it left the file as it was).
  For a path that does not hold an audio file the tag library can load, \<^verbatim>\<open>File(file_path)\<close>
  either returns \<^verbatim>\<open>None\<close> (no container claims the file) or raises (a container claims it
  by its name or header and then fails to read it): \<open>open_raises\<close> tells which.
\<close>

record env =
  now :: "string \<Rightarrow> string"
  open_raises :: "string \<Rightarrow> bool"
  artist_write_raises :: bool
  album_artist_write_raises :: bool
  copy_raises :: bool
  save_raises :: bool
  torn :: "content option"

definition set_frame :: "audio \<Rightarrow> string \<Rightarrow> string \<Rightarrow> audio option" where
  "set_frame audio_file key text =
     (case frames audio_file of
        None \<Rightarrow> Some (audio_file\<lparr>frames := Some [key \<mapsto> text]\<rparr>)
      | Some f \<Rightarrow> if dom f = {} then None else Some (audio_file\<lparr>frames := Some (f(key \<mapsto> text))\<rparr>))"

definition update_artist :: "env \<Rightarrow> audio \<Rightarrow> string list \<Rightarrow> audio option" where
  "update_artist e audio_file artists_list =
     (if artist_write_raises e \<and> kind audio_file \<noteq> OtherAudio then None
      else case kind audio_file of
        MP4 \<Rightarrow> Some (audio_file\<lparr>tags := (tags audio_file)
                 ([CHR 0xA9, CHR ''A'', CHR ''R'', CHR ''T''] \<mapsto> [join_semicolon artists_list])\<rparr>)
      | FLAC \<Rightarrow> Some (audio_file\<lparr>tags := (tags audio_file)(''artist'' \<mapsto> artists_list)\<rparr>)
      | OggVorbis \<Rightarrow> Some (audio_file\<lparr>tags := (tags audio_file)(''artist'' \<mapsto> artists_list)\<rparr>)
      | MP3 \<Rightarrow> set_frame audio_file ''TPE1'' (join_semicolon artists_list)
      | AIFF \<Rightarrow> set_frame audio_file ''TPE1'' (join_semicolon artists_list)
      | WAVE \<Rightarrow> set_frame audio_file ''TPE1'' (join_semicolon artists_list)
      | OtherAudio \<Rightarrow> None)"

definition update_album_artist :: "env \<Rightarrow> audio \<Rightarrow> string list \<Rightarrow> audio option" where
  "update_album_artist e audio_file artists_list =
     (if album_artist_write_raises e \<and> kind audio_file \<noteq> OtherAudio then None
      else case kind audio_file of
        MP4 \<Rightarrow> Some (audio_file\<lparr>tags := (tags audio_file)(''aART'' \<mapsto> [join_semicolon artists_list])\<rparr>)
      | FLAC \<Rightarrow> Some (audio_file\<lparr>tags := (tags audio_file)(''albumartist'' \<mapsto> artists_list)\<rparr>)
      | OggVorbis \<Rightarrow> Some (audio_file\<lparr>tags := (tags audio_file)(''albumartist'' \<mapsto> artists_list)\<rparr>)
      | MP3 \<Rightarrow> set_frame audio_file ''TPE2'' (join_semicolon artists_list)
      | AIFF \<Rightarrow> set_frame audio_file ''TPE2'' (join_semicolon artists_list)
      | WAVE \<Rightarrow> set_frame audio_file ''TPE2'' (join_semicolon artists_list)
      | OtherAudio \<Rightarrow> None)"

section \<open>The per-file engine\<close>

datatype proposed = AsList "string list" | AsText string

datatype event =
    Printed string string proposed
  | TagWrite string
  | Backup string string
  | SaveCalled string

record world =
  disk :: "string \<rightharpoonup> content"
  log :: "event list"

datatype message = Unsupported_format | Failed_artist | Failed_album_artist | No_changes
  | Updated | Would_update | Error_msg | Xml_parse_error

definition would_change :: "audio_kind \<Rightarrow> string \<Rightarrow> string list \<Rightarrow> bool" where
  "would_change k current artists =
     (if is_native_list k
      then (case artists of [] \<Rightarrow> False | a # _ \<Rightarrow> 1 < length artists \<or> current \<noteq> a)
      else join_semicolon artists \<noteq> current)"

definition new_format :: "audio_kind \<Rightarrow> string list \<Rightarrow> proposed" where
  "new_format k artists = (if is_native_list k then AsList artists else AsText (join_semicolon artists))"

definition backup_path :: "env \<Rightarrow> string \<Rightarrow> string" where
  "backup_path e file_path = file_path @ ''.backup_'' @ now e file_path"

text \<open>One field of \<^verbatim>\<open>update_music_file\<close>: the result is the audio object and the
  \<^verbatim>\<open>changed\<close> flag, or \<open>None\<close> when the adapter returned \<^verbatim>\<open>False\<close>.\<close>

definition field_step ::
  "bool \<Rightarrow> string \<Rightarrow> string option \<Rightarrow> (audio \<Rightarrow> string list \<Rightarrow> audio option) \<Rightarrow>
   audio \<times> bool \<times> event list \<Rightarrow> (audio \<times> bool) option \<times> event list" where
  "field_step dry_run label current upd st =
     (case st of (audio_file, changed, lg) \<Rightarrow>
        (case current of
           None \<Rightarrow> (Some (audio_file, changed), lg)
         | Some cur \<Rightarrow>
             if cur = [] then (Some (audio_file, changed), lg)
             else let artists = parse_artists cur in
               if would_change (kind audio_file) cur artists then
                 let lg1 = lg @ [Printed label cur (new_format (kind audio_file) artists)] in
                 if \<not> dry_run then
                   (case upd audio_file artists of
                      Some a' \<Rightarrow> (Some (a', True), lg1 @ [TagWrite label])
                    | None \<Rightarrow> (None, lg1 @ [TagWrite label]))
                 else (Some (audio_file, True), lg1)
               else (Some (audio_file, changed), lg)))"

text \<open>
  The backup and save steps shared by both per-file functions: \<open>new\<close> is what a
  successful save writes.  The backup copies what the path holds at that moment.
\<close>

definition backup_and_save ::
  "env \<Rightarrow> string \<Rightarrow> bool \<Rightarrow> content \<Rightarrow> event list \<Rightarrow> world \<Rightarrow> (bool \<times> bool \<times> message) \<times> world" where
  "backup_and_save e file_path backup new lg w =
     (if backup \<and> copy_raises e then ((False, False, Error_msg), w\<lparr>log := lg\<rparr>)
      else
        let w1 = (if backup
                  then w\<lparr>disk := (disk w)(backup_path e file_path := disk w file_path),
                         log := lg @ [Backup file_path (backup_path e file_path)]\<rparr>
                  else w\<lparr>log := lg\<rparr>);
            w2 = w1\<lparr>log := log w1 @ [SaveCalled file_path]\<rparr>
        in if save_raises e
           then ((False, False, Error_msg),
                 (case torn e of None \<Rightarrow> w2
                  | Some c \<Rightarrow> w2\<lparr>disk := (disk w2)(file_path \<mapsto> c)\<rparr>))
           else ((True, True, Updated), w2\<lparr>disk := (disk w2)(file_path \<mapsto> new)\<rparr>))"

definition update_music_file ::
  "env \<Rightarrow> string \<Rightarrow> bool \<Rightarrow> bool \<Rightarrow> world \<Rightarrow> (bool \<times> bool \<times> message) \<times> world" where
  "update_music_file e file_path dry_run backup w =
     (case disk w file_path of
        None \<Rightarrow> ((False, False, Error_msg), w)
      | Some (XmlData root) \<Rightarrow>
          if open_raises e file_path then ((False, False, Error_msg), w)
          else ((True, False, Unsupported_format), w)
      | Some OtherData \<Rightarrow>
          if open_raises e file_path then ((False, False, Error_msg), w)
          else ((True, False, Unsupported_format), w)
      | Some (AudioData audio_file) \<Rightarrow>
          let current_artist = get_current_artist audio_file;
              current_album_artist = get_current_album_artist audio_file
          in
          (case field_step dry_run ''Artist'' current_artist (update_artist e)
                  (audio_file, False, log w) of
             (None, lg1) \<Rightarrow> ((False, False, Failed_artist), w\<lparr>log := lg1\<rparr>)
           | (Some (a1, changed1), lg1) \<Rightarrow>
               (case field_step dry_run ''Album Artist'' current_album_artist
                       (update_album_artist e) (a1, changed1, lg1) of
                  (None, lg2) \<Rightarrow> ((False, False, Failed_album_artist), w\<lparr>log := lg2\<rparr>)
                | (Some (a2, changed), lg2) \<Rightarrow>
                    if \<not> changed then ((True, False, No_changes), w\<lparr>log := lg2\<rparr>)
                    else if \<not> dry_run then backup_and_save e file_path backup (AudioData a2) lg2 w
                    else ((True, True, Would_update), w\<lparr>log := lg2\<rparr>))))"

section \<open>Sidecar documents (\<^verbatim>\<open>update_nfo_file\<close> of \<^verbatim>\<open>format-music-file-metadata.py\<close>)\<close>

text \<open>\<^verbatim>\<open>root.findall('.//tag')\<close>: the descendants of the root with that tag, in document order.\<close>

fun descendants :: "elem \<Rightarrow> elem list" where
  "descendants (Elem t x cs) = concat (map (\<lambda>c. c # descendants c) cs)"

definition findall :: "string \<Rightarrow> elem \<Rightarrow> elem list" where
  "findall tg root = filter (\<lambda>el. etag el = tg) (descendants root)"

text \<open>
  The body of the loop over the elements found: \<open>Some (original, formatted)\<close> when the
  element's text is to be replaced.
\<close>

definition text_change :: "string option \<Rightarrow> (string \<times> string) option" where
  "text_change tx =
     (case tx of
        None \<Rightarrow> None
      | Some t \<Rightarrow>
          if t = [] then None
          else let original = strip t;
                   artists = parse_artists original;
                   formatted = format_artists_to_semicolon artists
               in if formatted \<noteq> original then Some (original, formatted) else None)"

text \<open>
  The loop assigns \<^verbatim>\<open>elem.text = formatted\<close> on the nodes it found; on the tree this is a
  map over every descendant with the tag, which leaves tags and structure as they are.
\<close>

fun rewrite_node :: "string \<Rightarrow> elem \<Rightarrow> elem" where
  "rewrite_node tg (Elem t x cs) =
     Elem t (if t = tg then (case text_change x of Some (original, formatted) \<Rightarrow> Some formatted | None \<Rightarrow> x)
             else x)
          (map (rewrite_node tg) cs)"

definition rewrite_tag :: "string \<Rightarrow> elem \<Rightarrow> elem" where
  "rewrite_tag tg root = Elem (etag root) (etext root) (map (rewrite_node tg) (children root))"

definition change_lines :: "string \<Rightarrow> string \<Rightarrow> elem \<Rightarrow> event list" where
  "change_lines label tg root =
     concat (map (\<lambda>el. case text_change (etext el) of
                          Some (original, formatted) \<Rightarrow> [Printed label original (AsText formatted)]
                        | None \<Rightarrow> [])
                 (findall tg root))"

definition update_nfo_file ::
  "env \<Rightarrow> string \<Rightarrow> bool \<Rightarrow> bool \<Rightarrow> world \<Rightarrow> (bool \<times> bool \<times> message) \<times> world" where
  "update_nfo_file e nfo_path dry_run backup w =
     (case disk w nfo_path of
        None \<Rightarrow> ((False, False, Error_msg), w)
      | Some (AudioData a) \<Rightarrow> ((False, False, Xml_parse_error), w)
      | Some OtherData \<Rightarrow> ((False, False, Xml_parse_error), w)
      | Some (XmlData root) \<Rightarrow>
          let lines1 = change_lines ''Artist'' ''artist'' root;
              root1 = (if dry_run then root else rewrite_tag ''artist'' root);
              lines2 = change_lines ''Album Artist'' ''albumartist'' root1;
              root2 = (if dry_run then root1 else rewrite_tag ''albumartist'' root1);
              changed = (lines1 \<noteq> [] \<or> lines2 \<noteq> []);
              lg = log w @ lines1 @ lines2
          in if changed \<and> \<not> dry_run then backup_and_save e nfo_path backup (XmlData root2) lg w
             else if changed \<and> dry_run then ((True, True, Would_update), w\<lparr>log := lg\<rparr>)
             else ((True, False, No_changes), w\<lparr>log := lg\<rparr>))"

section \<open>The batch (\<^verbatim>\<open>process_directory\<close> of \<^verbatim>\<open>format-music-file-metadata.py\<close>)\<close>

record stats =
  processed :: nat
  updated :: nat
  errors :: nat
  skipped :: nat

definition tally :: "bool \<times> bool \<times> message \<Rightarrow> stats \<Rightarrow> stats" where
  "tally r st =
     (case r of (success, changed, message) \<Rightarrow>
        let st1 = st\<lparr>processed := processed st + 1\<rparr> in
        if success \<and> changed then st1\<lparr>updated := updated st1 + 1\<rparr>
        else if success \<and> \<not> changed then st1\<lparr>skipped := skipped st1 + 1\<rparr>
        else st1\<lparr>errors := errors st1 + 1\<rparr>)"

text \<open>One \<^verbatim>\<open>for\<close> loop of the batch: each file in turn, whatever the previous one returned.\<close>

fun process_files ::
  "(string \<Rightarrow> world \<Rightarrow> (bool \<times> bool \<times> message) \<times> world) \<Rightarrow> string list \<Rightarrow>
   stats \<times> world \<Rightarrow> stats \<times> world" where
  "process_files f [] sw = sw"
| "process_files f (file # files) (st, w) =
     (case f file w of (r, w') \<Rightarrow> process_files f files (tally r st, w'))"

text \<open>
  The directory scan is outside the model: \<open>music_files\<close> and \<open>nfo_files\<close> are what
  \<^verbatim>\<open>rglob\<close> returned.  \<open>None\<close> is the early return when nothing was found.
\<close>

definition process_directory ::
  "env \<Rightarrow> string list \<Rightarrow> string list \<Rightarrow> bool \<Rightarrow> bool \<Rightarrow> world \<Rightarrow> stats option \<times> world" where
  "process_directory e music_files nfo_files dry_run backup w =
     (if length music_files + length nfo_files = 0 then (None, w)
      else
        let st0 = \<lparr>processed = 0, updated = 0, errors = 0, skipped = 0\<rparr>;
            sw1 = process_files (\<lambda>f. update_nfo_file e f dry_run backup) nfo_files (st0, w);
            sw2 = process_files (\<lambda>f. update_music_file e f dry_run backup) music_files sw1
        in (Some (fst sw2), snd sw2))"

section \<open>Sidecar documents with genres (\<^verbatim>\<open>update_nfo_file\<close> of \<^verbatim>\<open>format-metadata.py\<close>)\<close>

text \<open>
  The two calls into the music catalogue are parameters: \<open>mb_search album artist\<close> is
  \<^verbatim>\<open>search_album_on_musicbrainz\<close> and \<open>mb_genres mb_id\<close> is \<^verbatim>\<open>get_genres_from_musicbrainz\<close>
  (both return nothing rather than raise).
\<close>

record catalog =
  mb_search :: "string \<Rightarrow> string \<Rightarrow> string option"
  mb_genres :: "string \<Rightarrow> string list"

text \<open>\<^verbatim>\<open>root.find('.//tag')\<close>: the first element \<^verbatim>\<open>findall\<close> returns.\<close>

definition find_first :: "string \<Rightarrow> elem \<Rightarrow> elem option" where
  "find_first tg root = (case findall tg root of [] \<Rightarrow> None | el # _ \<Rightarrow> Some el)"

definition truthy :: "string option \<Rightarrow> bool" where
  "truthy tx = (case tx of None \<Rightarrow> False | Some t \<Rightarrow> t \<noteq> [])"

definition get_musicbrainz_id_from_nfo :: "elem \<Rightarrow> string option" where
  "get_musicbrainz_id_from_nfo root =
     (case find_first ''musicbrainzreleasegroupid'' root of
        Some (Elem t (Some tx) cs) \<Rightarrow>
          if tx \<noteq> [] then Some (strip tx)
          else (case find_first ''musicbrainzalbumid'' root of
                  Some (Elem t' (Some tx') cs') \<Rightarrow> if tx' \<noteq> [] then Some (strip tx') else None
                | _ \<Rightarrow> None)
      | _ \<Rightarrow> (case find_first ''musicbrainzalbumid'' root of
                  Some (Elem t' (Some tx') cs') \<Rightarrow> if tx' \<noteq> [] then Some (strip tx') else None
                | _ \<Rightarrow> None))"

text \<open>The artist loop of this script rewrites an element only when the credit names
  more than one artist.\<close>

definition text_change_multi :: "string option \<Rightarrow> (string \<times> string) option" where
  "text_change_multi tx =
     (case tx of
        None \<Rightarrow> None
      | Some t \<Rightarrow>
          if t = [] then None
          else let original = strip t;
                   artists = parse_artists original
               in if 1 < length artists
                  then (let formatted = format_artists_to_semicolon artists
                        in if formatted \<noteq> original then Some (original, formatted) else None)
                  else None)"

fun rewrite_node_multi :: "elem \<Rightarrow> elem" where
  "rewrite_node_multi (Elem t x cs) =
     Elem t (if t = ''artist''
             then (case text_change_multi x of Some (original, formatted) \<Rightarrow> Some formatted | None \<Rightarrow> x)
             else x)
          (map rewrite_node_multi cs)"

definition rewrite_artists_multi :: "elem \<Rightarrow> elem" where
  "rewrite_artists_multi root = Elem (etag root) (etext root) (map rewrite_node_multi (children root))"

definition change_lines_multi :: "elem \<Rightarrow> event list" where
  "change_lines_multi root =
     concat (map (\<lambda>el. case text_change_multi (etext el) of
                          Some (original, formatted) \<Rightarrow> [Printed ''Artist'' original (AsText formatted)]
                        | None \<Rightarrow> [])
                 (findall ''artist'' root))"

text \<open>The decision whether genres are fetched, on the list \<^verbatim>\<open>existing_genres\<close>.\<close>

definition blank :: "elem \<Rightarrow> bool" where
  "blank g \<longleftrightarrow> \<not> truthy (etext g) \<or> strip (the (etext g)) = []"

definition needs_genre_fetch :: "bool \<Rightarrow> elem list \<Rightarrow> bool" where
  "needs_genre_fetch force_genres existing_genres =
     (if force_genres then True
      else if existing_genres = [] then True
      else if list_all blank existing_genres then True
      else if length existing_genres = 1 \<and> truthy (etext (hd existing_genres)) \<and>
              map lower_char (strip (the (etext (hd existing_genres)))) = ''music'' then True
      else False)"

definition resolve_mb_id :: "catalog \<Rightarrow> elem \<Rightarrow> string option" where
  "resolve_mb_id cat root =
     (case get_musicbrainz_id_from_nfo root of
        Some i \<Rightarrow> if i \<noteq> [] then Some i else
          (case (find_first ''title'' root, find_first ''artist'' root) of
             (Some album_elem, Some artist_elem) \<Rightarrow>
               if truthy (etext album_elem) \<and> truthy (etext artist_elem)
               then mb_search cat (the (etext album_elem)) (the (etext artist_elem)) else None
           | _ \<Rightarrow> None)
      | None \<Rightarrow>
          (case (find_first ''title'' root, find_first ''artist'' root) of
             (Some album_elem, Some artist_elem) \<Rightarrow>
               if truthy (etext album_elem) \<and> truthy (etext artist_elem)
               then mb_search cat (the (etext album_elem)) (the (etext artist_elem)) else None
           | _ \<Rightarrow> None))"

text \<open>
  \<^verbatim>\<open>root.remove(genre_elem)\<close> for every element found, then one new child per genre.
  \<^verbatim>\<open>remove\<close> looks among the children of the root only and raises \<^verbatim>\<open>ValueError\<close> for an
  element that lies deeper: \<open>None\<close> is that exception.
\<close>

definition nested_genre :: "elem \<Rightarrow> bool" where
  "nested_genre root \<longleftrightarrow> list_ex (\<lambda>c. findall ''genre'' c \<noteq> []) (children root)"

definition replace_genres :: "elem \<Rightarrow> string list \<Rightarrow> elem option" where
  "replace_genres root genres =
     (if nested_genre root then None
      else Some (Elem (etag root) (etext root)
                   (filter (\<lambda>c. etag c \<noteq> ''genre'') (children root)
                    @ map (\<lambda>genre. Elem ''genre'' (Some genre) []) genres)))"

definition fm_update_nfo_file ::
  "catalog \<Rightarrow> env \<Rightarrow> string \<Rightarrow> bool \<Rightarrow> bool \<Rightarrow> bool \<Rightarrow> bool \<Rightarrow> world \<Rightarrow>
   (bool \<times> bool \<times> message) \<times> world" where
  "fm_update_nfo_file cat e nfo_path dry_run backup fetch_genres force_genres w =
     (case disk w nfo_path of
        None \<Rightarrow> ((False, False, Error_msg), w)
      | Some (AudioData a) \<Rightarrow> ((False, False, Xml_parse_error), w)
      | Some OtherData \<Rightarrow> ((False, False, Xml_parse_error), w)
      | Some (XmlData root) \<Rightarrow>
          let lines1 = change_lines_multi root;
              root1 = (if dry_run then root else rewrite_artists_multi root);
              lg = log w @ lines1;
              fetched = (if fetch_genres \<and> needs_genre_fetch force_genres (findall ''genre'' root1)
                         then (case resolve_mb_id cat root1 of
                                 None \<Rightarrow> []
                               | Some mb_id \<Rightarrow> if mb_id = [] then [] else mb_genres cat mb_id)
                         else [])
          in if fetched \<noteq> [] then
               (case replace_genres root1 fetched of
                  None \<Rightarrow> ((False, False, Error_msg), w\<lparr>log := lg\<rparr>)
                | Some root2 \<Rightarrow>
                    if \<not> dry_run then backup_and_save e nfo_path backup (XmlData root2) lg w
                    else ((True, True, Would_update), w\<lparr>log := lg\<rparr>))
             else if lines1 \<noteq> [] \<and> \<not> dry_run
                  then backup_and_save e nfo_path backup (XmlData root1) lg w
             else if lines1 \<noteq> [] \<and> dry_run then ((True, True, Would_update), w\<lparr>log := lg\<rparr>)
             else ((True, False, No_changes), w\<lparr>log := lg\<rparr>))"

section \<open>Auxiliary notions for stating the engine's properties\<close>

text \<open>
  A field is pending when the engine would rewrite it; \<open>preview_line\<close> is the line the
  engine prints for a pending field; \<open>is_io\<close> singles out the events that touch the disk.
\<close>

definition pending :: "audio_kind \<Rightarrow> string option \<Rightarrow> bool" where
  "pending k current =
     (case current of None \<Rightarrow> False
      | Some cur \<Rightarrow> cur \<noteq> [] \<and> would_change k cur (parse_artists cur))"

definition preview_line :: "string \<Rightarrow> audio_kind \<Rightarrow> string option \<Rightarrow> event list" where
  "preview_line label k current =
     (case current of None \<Rightarrow> []
      | Some cur \<Rightarrow> if pending k current
                    then [Printed label cur (new_format k (parse_artists cur))] else [])"

definition is_io :: "event \<Rightarrow> bool" where
  "is_io ev = (case ev of Backup src dst \<Rightarrow> True | SaveCalled p \<Rightarrow> True | _ \<Rightarrow> False)"

text \<open>
  Modelled on the words of the specification, for comparison with \<open>needs_genre_fetch\<close>: the
  trigger of genre enrichment with the force flag off, as the specification describes it.
\<close>

definition spec_genre_trigger :: "elem list \<Rightarrow> bool" where
  "spec_genre_trigger existing \<longleftrightarrow>
     existing = [] \<or>
     list_all (\<lambda>g. etext g = None \<or> etext g = Some []) existing \<or>
     (length existing = 1 \<and> etext (hd existing) = Some ''Music'')"

text \<open>One \<^verbatim>\<open>genre\<close> element per fetched genre, as \<^verbatim>\<open>ET.SubElement\<close> creates them.\<close>

definition genre_elems :: "string list \<Rightarrow> elem list" where
  "genre_elems genres = map (\<lambda>genre. Elem ''genre'' (Some genre) []) genres"


section \<open>Concrete files used to exercise the theorems\<close>

definition ex_env :: env where
  "ex_env = \<lparr>now = (\<lambda>p. ''20240101_120000''), open_raises = (\<lambda>p. True),
      artist_write_raises = False,
             album_artist_write_raises = True, copy_raises = False, save_raises = False,
             torn = None\<rparr>"

definition ex_mp4 :: audio where
  "ex_mp4 = \<lparr>kind = MP4, tags = [''aART'' \<mapsto> [''A & B'']], frames = None\<rparr>"

definition ex_world :: world where
  "ex_world = \<lparr>disk = [''x.m4a'' \<mapsto> AudioData ex_mp4], log = []\<rparr>"

definition ex_flac_two :: audio where
  "ex_flac_two = \<lparr>kind = FLAC, tags = [''artist'' \<mapsto> [''A'', ''B'']], frames = None\<rparr>"

definition ex_world_flac :: world where
  "ex_world_flac = \<lparr>disk = [''x.flac'' \<mapsto> AudioData ex_flac_two], log = []\<rparr>"

definition ex_env_ok :: env where
  "ex_env_ok = \<lparr>now = (\<lambda>p. ''20240101_120000''), open_raises = (\<lambda>p. True),
      artist_write_raises = False,
                album_artist_write_raises = False, copy_raises = False, save_raises = False,
                torn = None\<rparr>"

definition ex_flac_feat :: audio where
  "ex_flac_feat = \<lparr>kind = FLAC, tags = [''artist'' \<mapsto> [''A feat. B'', ''C'']], frames = None\<rparr>"

definition ex_world_feat :: world where
  "ex_world_feat = \<lparr>disk = [''y.flac'' \<mapsto> AudioData ex_flac_feat], log = []\<rparr>"

definition ex_world_bad :: world where
  "ex_world_bad = \<lparr>disk = [''bad.nfo'' \<mapsto> OtherData], log = []\<rparr>"

definition ex_nfo :: elem where
  "ex_nfo = Elem ''album'' None [Elem ''title'' (Some ''T'') [], Elem ''artist'' (Some ''A feat. B'') []]"

definition ex_world_nfo :: world where
  "ex_world_nfo = \<lparr>disk = [''album.nfo'' \<mapsto> XmlData ex_nfo], log = []\<rparr>"

definition ex_catalog :: catalog where
  "ex_catalog = \<lparr>mb_search = (\<lambda>album artist. None), mb_genres = (\<lambda>i. [''Rock'', ''Pop''])\<rparr>"

definition ex_nfo_music :: elem where
  "ex_nfo_music = Elem ''album'' None
     [Elem ''musicbrainzreleasegroupid'' (Some ''id-1'') [], Elem ''genre'' (Some ''Music'') []]"

definition ex_world_music :: world where
  "ex_world_music = \<lparr>disk = [''a.nfo'' \<mapsto> XmlData ex_nfo_music], log = []\<rparr>"

definition ex_world_batch :: world where
  "ex_world_batch = \<lparr>disk = [''bad.nfo'' \<mapsto> OtherData, ''album.nfo'' \<mapsto> XmlData ex_nfo,
                             ''x.flac'' \<mapsto> AudioData ex_flac_two], log = []\<rparr>"

section \<open>Facts about the parser\<close>

lemma dropWhile_neq_shorter: "dropWhile P s \<noteq> s \<Longrightarrow> length (dropWhile P s) < length s"
  by (cases s) (auto simp: le_imp_less_Suc length_dropWhile_le split: if_splits)

lemma wmatch_shorter: "wmatch ok s = Some rest \<Longrightarrow> length rest < length s"
proof -
  assume a: "wmatch ok s = Some rest"
  let ?t = "dropWhile is_space s"
  let ?r = "dropWhile (\<lambda>c. \<not> is_space c) ?t"
  from a have ne: "?t \<noteq> s" and r: "rest = dropWhile is_space ?r"
    by (auto simp: wmatch_def Let_def split: if_splits)
  have "length ?t < length s"
    using ne by (rule dropWhile_neq_shorter)
  moreover have "length rest \<le> length ?r" unfolding r by (rule length_dropWhile_le)
  moreover have "length ?r \<le> length ?t" by (rule length_dropWhile_le)
  ultimately show ?thesis by simp
qed

lemma dropWhile_id: "s = [] \<or> \<not> P (hd s) \<Longrightarrow> dropWhile P s = s"
  by (cases s) auto

lemma rmatch_Ws_only:
  "rmatch ic [Ws] s = (if s \<noteq> [] \<and> is_space (hd s) then Some (dropWhile is_space s) else None)"
proof (induction s)
  case Nil
  then show ?case by simp
next
  case (Cons a s)
  then show ?case by (cases s) auto
qed

lemma rmatch_lits:
  "rmatch ic (lits tok @ r) t =
     (if length tok \<le> length t \<and> list_all2 (char_eq ic) tok (take (length tok) t)
      then rmatch ic r (drop (length tok) t) else None)"
proof (induction tok arbitrary: t)
  case Nil
  then show ?case by (simp add: lits_def)
next
  case (Cons p tok)
  show ?case
  proof (cases t)
    case Nil
    then show ?thesis by (simp add: lits_def)
  next
    case (Cons x xs)
    then show ?thesis using Cons.IH [of xs] by (simp add: lits_def)
  qed
qed

lemma lower_char_cases:
  "lower_char x = x \<or>
   (x \<in> set ''ABCDEFGHIJKLMNOPQRSTUVWXYZ'' \<and> lower_char x \<in> set ''abcdefghijklmnopqrstuvwxyz'')"
proof (cases "map_of (zip ''ABCDEFGHIJKLMNOPQRSTUVWXYZ'' ''abcdefghijklmnopqrstuvwxyz'') x")
  case None
  then have "lower_char x = x" by (simp only: lower_char_def option.case)
  then show ?thesis by (rule disjI1)
next
  case (Some l)
  then have "(x, l) \<in> set (zip ''ABCDEFGHIJKLMNOPQRSTUVWXYZ'' ''abcdefghijklmnopqrstuvwxyz'')"
    by (rule map_of_SomeD)
  then have "x \<in> set ''ABCDEFGHIJKLMNOPQRSTUVWXYZ''" "l \<in> set ''abcdefghijklmnopqrstuvwxyz''"
    by (rule set_zip_leftD, rule set_zip_rightD)
  moreover have "lower_char x = l" using Some by (simp only: lower_char_def option.case)
  ultimately show ?thesis by blast
qed

lemma upper_not_space: "x \<in> set ''ABCDEFGHIJKLMNOPQRSTUVWXYZ'' \<Longrightarrow> \<not> is_space x \<and> x \<noteq> CHR ''.'' \<and> x \<noteq> CHR '','' \<and> x \<noteq> CHR '';''"
  by (auto simp: is_space_def)

lemma lower_not_space: "x \<in> set ''abcdefghijklmnopqrstuvwxyz'' \<Longrightarrow> \<not> is_space x \<and> x \<noteq> CHR ''.'' \<and> x \<noteq> CHR '','' \<and> x \<noteq> CHR '';''"
  by (auto simp: is_space_def)

lemma lower_char_space [simp]: "is_space (lower_char x) = is_space x"
  using lower_char_cases [of x] upper_not_space [of x] lower_not_space [of "lower_char x"]
  by metis

lemma lower_char_dot [simp]: "lower_char x = CHR ''.'' \<longleftrightarrow> x = CHR ''.''"
  using lower_char_cases [of x] upper_not_space [of x] lower_not_space [of "lower_char x"]
  by metis

lemma lower_char_comma [simp]: "lower_char x = CHR '','' \<longleftrightarrow> x = CHR '',''"
  using lower_char_cases [of x] upper_not_space [of x] lower_not_space [of "lower_char x"]
  by metis

lemma lower_char_semicolon [simp]: "lower_char x = CHR '';'' \<longleftrightarrow> x = CHR '';''"
  using lower_char_cases [of x] upper_not_space [of x] lower_not_space [of "lower_char x"]
  by metis

lemma dot_not_space [simp]: "\<not> is_space CHR ''.''"
  by (simp add: is_space_def)

lemma char_eq_dot [simp]: "char_eq ic CHR ''.'' x \<longleftrightarrow> x = CHR ''.''"
proof -
  have h: "lower_char CHR ''.'' = CHR ''.''" by simp
  show ?thesis by (simp add: char_eq_def h)
qed

lemma char_eq_space: "char_eq ic p x \<Longrightarrow> is_space x = is_space p"
proof (cases ic)
  case True
  assume "char_eq ic p x"
  with True have "lower_char x = lower_char p" by (simp add: char_eq_def)
  then show ?thesis by (metis lower_char_space)
next
  case False
  assume "char_eq ic p x"
  with False show ?thesis by (simp add: char_eq_def)
qed

lemma list_all2_char_eq_nsp:
  "list_all2 (char_eq ic) tok v \<Longrightarrow> \<forall>p\<in>set tok. nsp p \<Longrightarrow> \<forall>c\<in>set v. nsp c"
  by (induction rule: list_all2_induct) (auto dest: char_eq_space)

lemma rmatch_opt_dot_ws:
  "rmatch ic [Opt CHR ''.'', Ws] u =
     (case u of [] \<Rightarrow> None
      | x # xs \<Rightarrow> if x = CHR ''.'' then rmatch ic [Ws] xs else rmatch ic [Ws] (x # xs))"
  by (cases u) (auto simp: rmatch_Ws_only split: option.splits)

lemma prefix_take: "w @ r = t \<Longrightarrow> take (length w) t = w"
  by auto

lemma tok_ok_prefix:
  assumes "tok_ok ic tok dot (takeWhile nsp t)"
  shows "length tok \<le> length t \<and> list_all2 (char_eq ic) tok (take (length tok) t)"
proof -
  let ?w = "takeWhile nsp t"
  have wt: "?w @ dropWhile nsp t = t" by simp
  from assms consider (a) "list_all2 (char_eq ic) tok ?w"
    | (b) "?w \<noteq> []" "list_all2 (char_eq ic) tok (butlast ?w)"
    by (auto simp: tok_ok_def)
  then show ?thesis
  proof cases
    case a
    then have l: "length tok = length ?w" by (rule list_all2_lengthD)
    have "take (length ?w) t = ?w" using wt by (rule prefix_take)
    with a l show ?thesis by (metis length_takeWhile_le)
  next
    case b
    then have l: "length tok = length (butlast ?w)" by (metis list_all2_lengthD)
    have "butlast ?w @ ([last ?w] @ dropWhile nsp t) = t"
      using b(1) wt by (metis append_butlast_last_id append_assoc)
    then have "take (length (butlast ?w)) t = butlast ?w" by (rule prefix_take)
    moreover have "length (butlast ?w) \<le> length t"
      using length_takeWhile_le [of nsp t] by simp
    ultimately show ?thesis using b l by simp
  qed
qed

lemma tok_ok_app:
  assumes "list_all2 (char_eq ic) tok v"
  shows "tok_ok ic tok dot (v @ w) \<longleftrightarrow> w = [] \<or> (dot \<and> w = ''.'')"
proof
  assume ok: "tok_ok ic tok dot (v @ w)"
  have lv: "length tok = length v" using assms by (rule list_all2_lengthD)
  from ok consider (a) "list_all2 (char_eq ic) tok (v @ w)"
    | (b) "dot" "v @ w \<noteq> []" "last (v @ w) = CHR ''.''" "list_all2 (char_eq ic) tok (butlast (v @ w))"
    by (auto simp: tok_ok_def)
  then show "w = [] \<or> (dot \<and> w = ''.'')"
  proof cases
    case a
    then have "length tok = length (v @ w)" by (rule list_all2_lengthD)
    with lv show ?thesis by simp
  next
    case b
    from b(4) have "length tok = length (butlast (v @ w))" by (rule list_all2_lengthD)
    with lv have e1: "length v + length w - 1 = length v" by simp
    have e2: "length v + length w \<noteq> 0" using b(2) by simp
    from e1 e2 have "length w = 1" by linarith
    then obtain c where w: "w = [c]" by (cases w) auto
    with b(3) have "c = CHR ''.''" by simp
    with w b(1) show ?thesis by simp
  qed
next
  assume "w = [] \<or> (dot \<and> w = ''.'')"
  then show "tok_ok ic tok dot (v @ w)" using assms by (auto simp: tok_ok_def)
qed

lemma takeWhile_nsp_Nil:
  "takeWhile nsp xs = [] \<and> dropWhile nsp xs \<noteq> [] \<longleftrightarrow> xs \<noteq> [] \<and> is_space (hd xs)"
  by (cases xs) auto

lemma rmatch_sep_body:
  assumes tok: "\<forall>p\<in>set tok. nsp p"
  shows "rmatch ic (lits tok @ (if dot then [Opt CHR ''.''] else []) @ [Ws]) t =
     (if tok_ok ic tok dot (takeWhile nsp t) \<and> dropWhile nsp t \<noteq> []
      then Some (dropWhile is_space (dropWhile nsp t)) else None)"
proof (cases "length tok \<le> length t \<and> list_all2 (char_eq ic) tok (take (length tok) t)")
  case False
  then have "rmatch ic (lits tok @ (if dot then [Opt CHR ''.''] else []) @ [Ws]) t = None"
    by (simp only: rmatch_lits if_False)
  moreover have "\<not> tok_ok ic tok dot (takeWhile nsp t)"
    using False tok_ok_prefix by blast
  ultimately show ?thesis by simp
next
  case True
  define v where "v = take (length tok) t"
  define u where "u = drop (length tok) t"
  have t: "t = v @ u" by (simp add: v_def u_def)
  have all2: "list_all2 (char_eq ic) tok v" using True by (simp add: v_def)
  have nsv: "\<forall>c\<in>set v. nsp c" using all2 tok by (rule list_all2_char_eq_nsp)
  have tw: "takeWhile nsp t = v @ takeWhile nsp u"
    unfolding t using nsv by (simp add: takeWhile_append2)
  have dw: "dropWhile nsp t = dropWhile nsp u"
    unfolding t using nsv by (simp add: dropWhile_append2)
  have L: "rmatch ic (lits tok @ (if dot then [Opt CHR ''.''] else []) @ [Ws]) t =
           rmatch ic ((if dot then [Opt CHR ''.''] else []) @ [Ws]) u"
    using True by (simp add: rmatch_lits u_def)
  have ok: "tok_ok ic tok dot (takeWhile nsp t) \<longleftrightarrow>
            takeWhile nsp u = [] \<or> (dot \<and> takeWhile nsp u = ''.'')"
    unfolding tw using all2 by (rule tok_ok_app)
  show ?thesis
  proof (cases u)
    case Nil
    then show ?thesis unfolding L ok dw by (simp add: rmatch_opt_dot_ws)
  next
    case (Cons x xs)
    show ?thesis
    proof (cases "is_space x")
      case True
      then show ?thesis unfolding L ok dw Cons
        by (auto simp: rmatch_opt_dot_ws rmatch_Ws_only dropWhile_id)
    next
      case False
      then show ?thesis unfolding L ok dw Cons
        using takeWhile_nsp_Nil [of xs]
        by (auto simp: rmatch_opt_dot_ws rmatch_Ws_only dropWhile_id)
    qed
  qed
qed

lemma dropWhile_neq_iff: "dropWhile P s \<noteq> s \<longleftrightarrow> s \<noteq> [] \<and> P (hd s)"
proof (cases s)
  case Nil
  then show ?thesis by simp
next
  case (Cons a list)
  have "length (dropWhile P list) \<le> length list" by (rule length_dropWhile_le)
  then have "dropWhile P list \<noteq> a # list" by (metis Suc_n_not_le_n length_Cons)
  then show ?thesis using Cons by simp
qed

lemma rmatch_Ws_first:
  assumes "\<And>x xs. is_space x \<Longrightarrow> rmatch ic r (x # xs) = None"
  shows "rmatch ic (Ws # r) s =
         (if s \<noteq> [] \<and> is_space (hd s) then rmatch ic r (dropWhile is_space s) else None)"
proof (induction s)
  case Nil
  then show ?case by simp
next
  case (Cons a s)
  show ?case
  proof (cases "s \<noteq> [] \<and> is_space (hd s)")
    case True
    then obtain x xs where s: "s = x # xs" and x: "is_space x" by (cases s) auto
    have "rmatch ic r s = None" unfolding s using x by (rule assms)
    then show ?thesis using Cons True by (auto split: option.splits)
  next
    case False
    then have "dropWhile is_space s = s" by (auto intro: dropWhile_id)
    then show ?thesis using Cons False by (auto split: option.splits)
  qed
qed

lemma tok_ok_Nil: "tok \<noteq> [] \<Longrightarrow> \<not> tok_ok ic tok dot []"
  by (simp add: tok_ok_def)

lemma wmatch_alt:
  "wmatch ok s =
     (if s \<noteq> [] \<and> is_space (hd s) then
        (if ok (takeWhile nsp (dropWhile is_space s)) \<and> dropWhile nsp (dropWhile is_space s) \<noteq> []
         then Some (dropWhile is_space (dropWhile nsp (dropWhile is_space s))) else None)
      else None)"
proof (cases "s \<noteq> [] \<and> is_space (hd s)")
  case True
  then have "dropWhile is_space s \<noteq> s" using dropWhile_neq_iff [of is_space s] by blast
  then show ?thesis using True by (simp only: wmatch_def Let_def if_True simp_thms)
next
  case False
  then have "\<not> dropWhile is_space s \<noteq> s" using dropWhile_neq_iff [of is_space s] by blast
  then show ?thesis using False by (simp only: wmatch_def Let_def if_False simp_thms)
qed

lemma rmatch_sep_pat:
  assumes "tok \<noteq> []" "\<forall>p\<in>set tok. nsp p"
  shows "rmatch ic (sep_pat tok dot) s = wmatch (tok_ok ic tok dot) s"
proof -
  let ?r = "lits tok @ (if dot then [Opt CHR ''.''] else []) @ [Ws]"
  have body: "rmatch ic ?r t =
     (if tok_ok ic tok dot (takeWhile nsp t) \<and> dropWhile nsp t \<noteq> []
      then Some (dropWhile is_space (dropWhile nsp t)) else None)" for t
    using assms(2) by (rule rmatch_sep_body)
  have none: "rmatch ic ?r (x # xs) = None" if "is_space x" for x xs
    unfolding body using that assms(1) by (simp add: tok_ok_Nil)
  have "rmatch ic (Ws # ?r) s =
         (if s \<noteq> [] \<and> is_space (hd s) then rmatch ic ?r (dropWhile is_space s) else None)"
    using none by (rule rmatch_Ws_first)
  also have "\<dots> = wmatch (tok_ok ic tok dot) s"
    by (simp only: body wmatch_alt)
  finally show ?thesis by (simp only: sep_pat_def)
qed

lemma re_sub_sep:
  assumes "tok \<noteq> []" "\<forall>p\<in>set tok. nsp p"
  shows "re_sub ic (sep_pat tok dot) '', '' s = wsub (tok_ok ic tok dot) s"
proof (induction s rule: length_induct)
  case (1 s)
  show ?case
  proof (cases s)
    case Nil
    then show ?thesis by simp
  next
    case (Cons c cs)
    have m: "rmatch ic (sep_pat tok dot) (c # cs) = wmatch (tok_ok ic tok dot) (c # cs)"
      using assms by (rule rmatch_sep_pat)
    show ?thesis
    proof (cases "wmatch (tok_ok ic tok dot) (c # cs)")
      case None
      have "re_sub ic (sep_pat tok dot) '', '' cs = wsub (tok_ok ic tok dot) cs"
        using 1 Cons by simp
      then show ?thesis unfolding Cons using None m by simp
    next
      case (Some rest)
      then have l: "length rest < length (c # cs)" by (rule wmatch_shorter)
      then have "re_sub ic (sep_pat tok dot) '', '' rest = wsub (tok_ok ic tok dot) rest"
        using 1 Cons by simp
      then show ?thesis unfolding Cons using Some m l by simp
    qed
  qed
qed

lemma wm_iff:
  "wm ok s \<longleftrightarrow> s \<noteq> [] \<and> is_space (hd s) \<and> ok (takeWhile nsp (dropWhile is_space s)) \<and>
     dropWhile nsp (dropWhile is_space s) \<noteq> []"
proof (cases "s \<noteq> [] \<and> is_space (hd s)")
  case True
  show ?thesis
  proof (cases "ok (takeWhile nsp (dropWhile is_space s)) \<and> dropWhile nsp (dropWhile is_space s) \<noteq> []")
    case True
    with \<open>s \<noteq> [] \<and> is_space (hd s)\<close> show ?thesis
      by (simp only: wm_def wmatch_alt if_True option.distinct simp_thms)
  next
    case False
    with \<open>s \<noteq> [] \<and> is_space (hd s)\<close> show ?thesis
      by (simp only: wm_def wmatch_alt if_True if_False simp_thms)
  qed
next
  case False
  then show ?thesis
    by (simp only: wm_def wmatch_alt if_False simp_thms) blast
qed

lemma wm_Nil [simp]: "\<not> wm ok []"
  by (simp only: wm_iff) simp





lemma wm_sp_word:
  "is_space c \<Longrightarrow> t = [] \<or> nsp (hd t) \<Longrightarrow>
   wm ok (c # t) \<longleftrightarrow> ok (takeWhile nsp t) \<and> dropWhile nsp t \<noteq> []"
  by (simp only: wm_iff) (simp add: dropWhile_id)

lemma wmatch_wm: "wmatch ok s = (if wm ok s then Some (wrest s) else None)"
proof (cases "wm ok s")
  case True
  then have "s \<noteq> [] \<and> is_space (hd s)"
    and "ok (takeWhile nsp (dropWhile is_space s)) \<and> dropWhile nsp (dropWhile is_space s) \<noteq> []"
    using wm_iff [of ok s] by blast+
  then have "wmatch ok s = Some (wrest s)"
    by (simp only: wmatch_alt if_True wrest_def simp_thms)
  with True show ?thesis by simp
next
  case False
  then have "wmatch ok s = None" by (simp only: wm_def simp_thms)
  with False show ?thesis by simp
qed

lemma wsub_nomatch: "\<not> wm ok (c # cs) \<Longrightarrow> wsub ok (c # cs) = c # wsub ok cs"
  by (simp add: wmatch_wm)



declare wsub.simps(2) [simp del]


lemma space_space [simp]: "is_space CHR '' ''"
  by (simp add: is_space_def)

lemma comma_not_space [simp]: "\<not> is_space CHR '',''"
  by (simp add: is_space_def)












lemma guarded_mono: "guarded ok b s \<Longrightarrow> (b \<longrightarrow> b') \<Longrightarrow> guarded ok b' s"
  by (cases s) auto







lemma wsub_id: "\<not> anym ok s \<Longrightarrow> wsub ok s = s"
  by (induction s) (simp_all add: wsub_nomatch)



lemma split_on_no_delim: "d \<notin> set s \<Longrightarrow> split_on d s = [s]"
  by (induction s) auto



lemma strip_Nil [simp]: "strip [] = []"
  by (simp add: strip_def)

lemma strip_trimmed: "s \<noteq> [] \<Longrightarrow> nsp (hd s) \<Longrightarrow> nsp (last s) \<Longrightarrow> strip s = s"
proof -
  assume s: "s \<noteq> []" and h: "nsp (hd s)" and l: "nsp (last s)"
  have 1: "dropWhile is_space s = s" using s h by (cases s) auto
  have "rev s \<noteq> []" "nsp (hd (rev s))" using s l by (simp_all add: hd_rev)
  then have 2: "dropWhile is_space (rev s) = rev s" by (cases "rev s") auto
  show ?thesis unfolding strip_def 1 2 by simp
qed


lemma patterns_sep: "patterns =
  [sep_pat ''feat'' True, sep_pat ''ft'' True, sep_pat ''featuring'' False,
   sep_pat ''Feat'' True, sep_pat ''Ft'' True, sep_pat ''Featuring'' False]"
  by (simp add: patterns_def sep_pat_def)

lemma letters_nsp:
  "\<forall>p\<in>set ''featuring''. nsp p" "\<forall>p\<in>set ''Featuring''. nsp p" "\<forall>p\<in>set ''&''. nsp p"
  "\<forall>p\<in>set ''and''. nsp p"
  by (simp_all add: is_space_def)

lemma re_sub_feat:
  "re_sub True (sep_pat ''feat'' True) '', '' s = wsub (tok_ok True ''feat'' True) s"
  "re_sub True (sep_pat ''ft'' True) '', '' s = wsub (tok_ok True ''ft'' True) s"
  "re_sub True (sep_pat ''featuring'' False) '', '' s = wsub (tok_ok True ''featuring'' False) s"
  "re_sub True (sep_pat ''Feat'' True) '', '' s = wsub (tok_ok True ''Feat'' True) s"
  "re_sub True (sep_pat ''Ft'' True) '', '' s = wsub (tok_ok True ''Ft'' True) s"
  "re_sub True (sep_pat ''Featuring'' False) '', '' s = wsub (tok_ok True ''Featuring'' False) s"
  "re_sub False (sep_pat ''&'' False) '', '' s = wsub (tok_ok False ''&'' False) s"
  "re_sub True (sep_pat ''and'' False) '', '' s = wsub (tok_ok True ''and'' False) s"
  using letters_nsp by (simp_all add: re_sub_sep)

lemma rewrite_seps_wsub: "rewrite_seps s = fold wsub sep_oks s"
proof -
  have a: "amp_pattern = sep_pat ''&'' False" by (simp add: amp_pattern_def sep_pat_def)
  have b: "and_pattern = sep_pat ''and'' False" by (simp add: and_pattern_def sep_pat_def)
  show ?thesis
    unfolding rewrite_seps_def patterns_sep a b sep_oks_def by (simp only: fold_simps re_sub_feat id_apply o_apply)
qed










lemma parse_artists_pieces: "parse_artists s = (if s = [] then [] else pieces (fold wsub sep_oks s))"
  by (simp add: parse_artists_def pieces_def rewrite_seps_wsub)


lemma fold_wsub_id: "\<forall>ok\<in>set oks. \<not> anym ok s \<Longrightarrow> fold wsub oks s = s"
  by (induction oks) (simp_all add: wsub_id)

lemma parse_artists_no_match:
  assumes "\<forall>ok\<in>set sep_oks. \<not> anym ok s" "CHR '','' \<notin> set s" "strip s \<noteq> []"
  shows "parse_artists s = [strip s]"
proof -
  have "s \<noteq> []" using assms(3) by auto
  moreover have "fold wsub sep_oks s = s" using assms(1) by (rule fold_wsub_id)
  moreover have "split_on CHR '','' s = [s]" using assms(2) by (rule split_on_no_delim)
  ultimately show ?thesis using assms(3) by (simp add: parse_artists_pieces pieces_def)
qed

lemma parse_artists_tidy: "tidy p \<Longrightarrow> parse_artists p = [p]"
proof -
  assume t: "tidy p"
  then have "strip p = p" by (simp add: tidy_def strip_trimmed)
  moreover have "parse_artists p = [strip p]"
    using t by (intro parse_artists_no_match) (simp_all add: tidy_def strip_trimmed)
  ultimately show ?thesis by simp
qed




lemma separator_patterns_sep:
  "separator_patterns =
     [(True, sep_pat ''feat'' True), (True, sep_pat ''ft'' True), (True, sep_pat ''featuring'' False),
      (True, sep_pat ''Feat'' True), (True, sep_pat ''Ft'' True), (True, sep_pat ''Featuring'' False),
      (False, sep_pat ''&'' False), (True, sep_pat ''and'' False)]"
  by (simp add: separator_patterns_def patterns_sep amp_pattern_def and_pattern_def sep_pat_def)

lemma rmatch_feat:
  "rmatch True (sep_pat ''feat'' True) s = wmatch (tok_ok True ''feat'' True) s"
  "rmatch True (sep_pat ''ft'' True) s = wmatch (tok_ok True ''ft'' True) s"
  "rmatch True (sep_pat ''featuring'' False) s = wmatch (tok_ok True ''featuring'' False) s"
  "rmatch True (sep_pat ''Feat'' True) s = wmatch (tok_ok True ''Feat'' True) s"
  "rmatch True (sep_pat ''Ft'' True) s = wmatch (tok_ok True ''Ft'' True) s"
  "rmatch True (sep_pat ''Featuring'' False) s = wmatch (tok_ok True ''Featuring'' False) s"
  "rmatch False (sep_pat ''&'' False) s = wmatch (tok_ok False ''&'' False) s"
  "rmatch True (sep_pat ''and'' False) s = wmatch (tok_ok True ''and'' False) s"
  using letters_nsp by (simp_all add: rmatch_sep_pat)

lemma separator_patterns_oks:
  "list_all2 (\<lambda>(ic, pat) ok. \<forall>t. rmatch ic pat t = wmatch ok t) separator_patterns sep_oks"
  unfolding separator_patterns_sep sep_oks_def by (simp add: rmatch_feat)

lemma occurs_anym:
  assumes "\<forall>t. rmatch ic pat t = wmatch ok t"
  shows "occurs ic pat s \<longleftrightarrow> anym ok s"
proof (induction s)
  case Nil
  have "wmatch ok [] = None" using wm_Nil [of ok] by (simp only: wm_def simp_thms)
  with assms show ?case by simp
next
  case (Cons c cs)
  have "rmatch ic pat (c # cs) \<noteq> None \<longleftrightarrow> wm ok (c # cs)" using assms by (simp only: wm_def)
  with Cons show ?case by simp
qed

lemma list_all2_occurs:
  assumes "list_all2 (\<lambda>(ic, pat) ok. \<forall>t. rmatch ic pat t = wmatch ok t) ps oks"
  shows "list_ex (\<lambda>(ic, pat). occurs ic pat s) ps \<longleftrightarrow> (\<exists>ok\<in>set oks. anym ok s)"
  using assms
proof (induction rule: list_all2_induct)
  case Nil
  show ?case by simp
next
  case (Cons p ps ok oks)
  obtain ic pat where p: "p = (ic, pat)" by (cases p)
  with Cons(1) have "\<forall>t. rmatch ic pat t = wmatch ok t" by simp
  then have "occurs ic pat s \<longleftrightarrow> anym ok s" by (rule occurs_anym)
  with Cons(3) p show ?case by simp
qed

lemma has_separator_anym: "has_separator s \<longleftrightarrow> (\<exists>ok\<in>set sep_oks. anym ok s)"
  unfolding has_separator_def using separator_patterns_oks by (rule list_all2_occurs)


lemma strip_Nil_parse:
  assumes "CHR '','' \<notin> set s" "\<forall>ok\<in>set sep_oks. \<not> anym ok s" "strip s = []"
  shows "parse_artists s = []"
proof (cases "s = []")
  case True
  then show ?thesis by (simp add: parse_artists_def)
next
  case False
  have "fold wsub sep_oks s = s" using assms(2) by (rule fold_wsub_id)
  moreover have "split_on CHR '','' s = [s]" using assms(1) by (rule split_on_no_delim)
  ultimately show ?thesis using assms(3) False by (simp add: parse_artists_pieces pieces_def)
qed















section \<open>Facts about the per-file engine\<close>

lemma field_step_fail:
  assumes "current = Some cur" "cur \<noteq> []" "would_change (kind a) cur (parse_artists cur)"
    "upd a (parse_artists cur) = None"
  shows "field_step False label current upd (a, ch, lg) =
           (None, lg @ [Printed label cur (new_format (kind a) (parse_artists cur)), TagWrite label])"
  using assms by (simp add: field_step_def Let_def)

lemma parse_A_amp_B: "parse_artists ''A & B'' = [''A'', ''B'']"
  by code_simp

lemma parse_A: "parse_artists ''A'' = [''A'']"
  by code_simp

lemma field_step_skip:
  "current = None \<or> current = Some [] \<Longrightarrow>
   field_step dry label current upd (a, ch, lg) = (Some (a, ch), lg)"
  by (auto simp: field_step_def)

lemma field_step_unchanged:
  "current = Some cur \<Longrightarrow> cur \<noteq> [] \<Longrightarrow> \<not> would_change (kind a) cur (parse_artists cur) \<Longrightarrow>
   field_step dry label current upd (a, ch, lg) = (Some (a, ch), lg)"
  by (simp add: field_step_def Let_def)

lemma field_step_preview:
  "current = Some cur \<Longrightarrow> cur \<noteq> [] \<Longrightarrow> would_change (kind a) cur (parse_artists cur) \<Longrightarrow>
   field_step True label current upd (a, ch, lg) =
     (Some (a, True), lg @ [Printed label cur (new_format (kind a) (parse_artists cur))])"
  by (simp add: field_step_def Let_def)

lemma field_step_write:
  "current = Some cur \<Longrightarrow> cur \<noteq> [] \<Longrightarrow> would_change (kind a) cur (parse_artists cur) \<Longrightarrow>
   upd a (parse_artists cur) = Some a' \<Longrightarrow>
   field_step False label current upd (a, ch, lg) =
     (Some (a', True), lg @ [Printed label cur (new_format (kind a) (parse_artists cur)), TagWrite label])"
  by (simp add: field_step_def Let_def)

lemma field_step_dry:
  "field_step True label current upd (a, ch, lg) =
     (Some (a, ch \<or> pending (kind a) current), lg @ preview_line label (kind a) current)"
  by (auto simp: field_step_def pending_def preview_line_def Let_def split: option.splits)

lemma update_music_file_dry:
  assumes "disk w file_path = Some (AudioData a)"
  shows "update_music_file e file_path True backup w =
     ((True,
       pending (kind a) (get_current_artist a) \<or> pending (kind a) (get_current_album_artist a),
       if pending (kind a) (get_current_artist a) \<or> pending (kind a) (get_current_album_artist a)
       then Would_update else No_changes),
      w\<lparr>log := log w @ preview_line ''Artist'' (kind a) (get_current_artist a)
                     @ preview_line ''Album Artist'' (kind a) (get_current_album_artist a)\<rparr>)"
  using assms by (simp add: update_music_file_def Let_def field_step_dry)

lemma update_music_file_dry_disk:
  "disk (snd (update_music_file e file_path True backup w)) = disk w"
proof (cases "disk w file_path")
  case None
  then show ?thesis by (simp add: update_music_file_def)
next
  case (Some c)
  then show ?thesis
    by (cases c) (simp_all add: update_music_file_dry, simp_all add: update_music_file_def)
qed

lemma update_nfo_file_dry:
  assumes "disk w nfo_path = Some (XmlData root)"
  shows "update_nfo_file e nfo_path True backup w =
     ((True,
       change_lines ''Artist'' ''artist'' root @ change_lines ''Album Artist'' ''albumartist'' root \<noteq> [],
       if change_lines ''Artist'' ''artist'' root @ change_lines ''Album Artist'' ''albumartist'' root \<noteq> []
       then Would_update else No_changes),
      w\<lparr>log := log w @ change_lines ''Artist'' ''artist'' root
                     @ change_lines ''Album Artist'' ''albumartist'' root\<rparr>)"
  using assms by (simp add: update_nfo_file_def Let_def)

lemma update_nfo_file_dry_disk:
  "disk (snd (update_nfo_file e nfo_path True backup w)) = disk w"
proof (cases "disk w nfo_path")
  case None
  then show ?thesis by (simp add: update_nfo_file_def)
next
  case (Some c)
  then show ?thesis
    by (cases c) (simp_all add: update_nfo_file_dry, simp_all add: update_nfo_file_def)
qed

lemma field_step_log:
  assumes "field_step dry label current upd (a, ch, lg) = (r, lg')"
  shows "\<exists>pre. lg' = lg @ pre \<and> (\<forall>ev\<in>set pre. \<not> is_io ev)"
  using assms
  by (auto simp: field_step_def Let_def is_io_def split: option.splits if_splits)

lemma change_lines_not_io: "\<forall>ev\<in>set (change_lines label tg root). \<not> is_io ev"
  by (auto simp: change_lines_def is_io_def split: option.splits)

lemma backup_path_neq: "backup_path e p \<noteq> p"
proof
  assume "backup_path e p = p"
  then have "length (backup_path e p) = length p" by simp
  then show False by (simp add: backup_path_def)
qed

lemma backup_and_save_cases:
  assumes "backup_and_save e p True new lg w = (r, w')"
  shows "(disk w' = disk w \<and> log w' = lg) \<or>
         (log w' = lg @ [Backup p (backup_path e p), SaveCalled p] \<and>
          disk w' (backup_path e p) = disk w p)"
  using assms backup_path_neq [of e p]
  by (auto simp: backup_and_save_def Let_def split: if_splits option.splits)

lemma update_music_file_backup:
  assumes run: "update_music_file e p False True w = (r, w')"
    and mutated: "disk w' p \<noteq> disk w p"
  shows "\<exists>pre. log w' = log w @ pre @ [Backup p (backup_path e p), SaveCalled p] \<and>
           (\<forall>ev\<in>set pre. \<not> is_io ev) \<and> disk w' (backup_path e p) = disk w p"
proof (cases "disk w p")
  case None
  then show ?thesis using run mutated by (auto simp: update_music_file_def)
next
  case (Some c)
  show ?thesis
  proof (cases c)
    case (AudioData a)
    obtain r1 lg1 where s1: "field_step False ''Artist'' (get_current_artist a) (update_artist e)
        (a, False, log w) = (r1, lg1)" by (cases "field_step False ''Artist'' (get_current_artist a) (update_artist e)
        (a, False, log w)")
    from field_step_log [OF s1] obtain pre1 where
      p1: "lg1 = log w @ pre1" "\<forall>ev\<in>set pre1. \<not> is_io ev" by blast
    show ?thesis
    proof (cases r1)
      case None
      then show ?thesis using run mutated Some AudioData s1
        by (auto simp: update_music_file_def Let_def)
    next
      case (Some ac)
      obtain a1 ch1 where ac: "ac = (a1, ch1)" by (cases ac)
      obtain r2 lg2 where s2: "field_step False ''Album Artist'' (get_current_album_artist a)
        (update_album_artist e) (a1, ch1, lg1) = (r2, lg2)"
        by (cases "field_step False ''Album Artist'' (get_current_album_artist a)
        (update_album_artist e) (a1, ch1, lg1)")
      from field_step_log [OF s2] obtain pre2 where
        p2: "lg2 = lg1 @ pre2" "\<forall>ev\<in>set pre2. \<not> is_io ev" by blast
      show ?thesis
      proof (cases r2)
        case None
        then show ?thesis using run mutated \<open>disk w p = Some c\<close> AudioData s1 s2 Some ac
          by (auto simp: update_music_file_def Let_def)
      next
        case (Some bc)
        obtain a2 ch2 where bc: "bc = (a2, ch2)" by (cases bc)
        have run': "update_music_file e p False True w =
            (if \<not> ch2 then ((True, False, No_changes), w\<lparr>log := lg2\<rparr>)
             else backup_and_save e p True (AudioData a2) lg2 w)"
          using \<open>disk w p = Some c\<close> AudioData s1 s2 \<open>r1 = Some ac\<close> ac Some bc
          by (simp add: update_music_file_def Let_def)
        show ?thesis
        proof (cases ch2)
          case False
          then show ?thesis using run run' mutated by auto
        next
          case True
          then have "backup_and_save e p True (AudioData a2) lg2 w = (r, w')"
            using run run' by simp
          from backup_and_save_cases [OF this] mutated
          have "log w' = lg2 @ [Backup p (backup_path e p), SaveCalled p]"
            and "disk w' (backup_path e p) = disk w p" by auto
          then show ?thesis using p1 p2 by (intro exI [of _ "pre1 @ pre2"]) auto
        qed
      qed
    qed
  next
    case (XmlData root)
    then show ?thesis using run mutated Some by (auto simp: update_music_file_def split: if_splits)
  next
    case OtherData
    then show ?thesis using run mutated Some by (auto simp: update_music_file_def split: if_splits)
  qed
qed

lemma update_nfo_file_backup:
  assumes run: "update_nfo_file e p False True w = (r, w')"
    and mutated: "disk w' p \<noteq> disk w p"
  shows "\<exists>pre. log w' = log w @ pre @ [Backup p (backup_path e p), SaveCalled p] \<and>
           (\<forall>ev\<in>set pre. \<not> is_io ev) \<and> disk w' (backup_path e p) = disk w p"
proof (cases "disk w p")
  case None
  then show ?thesis using run mutated by (auto simp: update_nfo_file_def)
next
  case (Some c)
  show ?thesis
  proof (cases c)
    case (XmlData root)
    define l1 where "l1 = change_lines ''Artist'' ''artist'' root"
    define l2 where "l2 = change_lines ''Album Artist'' ''albumartist'' (rewrite_tag ''artist'' root)"
    have io: "\<forall>ev\<in>set (l1 @ l2). \<not> is_io ev"
      using change_lines_not_io by (auto simp: l1_def l2_def)
    have run': "update_nfo_file e p False True w =
       (if l1 \<noteq> [] \<or> l2 \<noteq> []
        then backup_and_save e p True
               (XmlData (rewrite_tag ''albumartist'' (rewrite_tag ''artist'' root))) (log w @ l1 @ l2) w
        else ((True, False, No_changes), w\<lparr>log := log w @ l1 @ l2\<rparr>))"
      using Some XmlData by (simp add: update_nfo_file_def Let_def l1_def l2_def)
    show ?thesis
    proof (cases "l1 \<noteq> [] \<or> l2 \<noteq> []")
      case False
      then show ?thesis using run run' mutated by auto
    next
      case True
      then have "backup_and_save e p True
               (XmlData (rewrite_tag ''albumartist'' (rewrite_tag ''artist'' root))) (log w @ l1 @ l2) w
            = (r, w')" using run run' by simp
      from backup_and_save_cases [OF this] mutated
      have "log w' = (log w @ l1 @ l2) @ [Backup p (backup_path e p), SaveCalled p]"
        and "disk w' (backup_path e p) = disk w p" by auto
      then show ?thesis using io by (intro exI [of _ "l1 @ l2"]) auto
    qed
  next
    case (AudioData a)
    then show ?thesis using run mutated Some by (auto simp: update_nfo_file_def)
  next
    case OtherData
    then show ?thesis using run mutated Some by (auto simp: update_nfo_file_def)
  qed
qed

lemma update_artist_native:
  assumes "update_artist e a xs = Some a'" "is_native_list (kind a)"
  shows "a' = a\<lparr>tags := (tags a)(''artist'' \<mapsto> xs)\<rparr>"
  using assms by (auto simp: update_artist_def is_native_list_def split: if_splits)

lemma update_album_artist_native:
  assumes "update_album_artist e a xs = Some a'" "is_native_list (kind a)"
  shows "a' = a\<lparr>tags := (tags a)(''albumartist'' \<mapsto> xs)\<rparr>"
  using assms by (auto simp: update_album_artist_def is_native_list_def split: if_splits)

lemma field_step_result:
  assumes "field_step False label current upd (a, ch, lg) = (Some (a', ch'), lg')"
  shows "(a' = a \<and> ch' = ch \<and> \<not> pending (kind a) current) \<or>
         (\<exists>cur. current = Some cur \<and> pending (kind a) current \<and> upd a (parse_artists cur) = Some a' \<and> ch')"
  using assms
  by (auto simp: field_step_def pending_def Let_def split: option.splits if_splits)

lemma backup_and_save_updated:
  assumes "backup_and_save e p backup new lg w = ((True, True, Updated), w')"
  shows "disk w' p = Some new"
  using assms by (auto simp: backup_and_save_def Let_def split: if_splits option.splits)

lemma update_music_file_updated:
  assumes on_disk: "disk w p = Some (AudioData a)"
    and run: "update_music_file e p False backup w = ((True, True, Updated), w')"
  shows "\<exists>a1 a2 ch1 ch2 lg1 lg2.
           field_step False ''Artist'' (get_current_artist a) (update_artist e) (a, False, log w)
             = (Some (a1, ch1), lg1) \<and>
           field_step False ''Album Artist'' (get_current_album_artist a) (update_album_artist e)
             (a1, ch1, lg1) = (Some (a2, ch2), lg2) \<and>
           disk w' p = Some (AudioData a2)"
proof -
  obtain r1 lg1 where s1: "field_step False ''Artist'' (get_current_artist a) (update_artist e)
        (a, False, log w) = (r1, lg1)"
    by (cases "field_step False ''Artist'' (get_current_artist a) (update_artist e) (a, False, log w)")
  show ?thesis
  proof (cases r1)
    case None
    then show ?thesis using run on_disk s1 by (simp add: update_music_file_def Let_def)
  next
    case (Some ac)
    obtain a1 ch1 where ac: "ac = (a1, ch1)" by (cases ac)
    obtain r2 lg2 where s2: "field_step False ''Album Artist'' (get_current_album_artist a)
        (update_album_artist e) (a1, ch1, lg1) = (r2, lg2)"
      by (cases "field_step False ''Album Artist'' (get_current_album_artist a)
        (update_album_artist e) (a1, ch1, lg1)")
    show ?thesis
    proof (cases r2)
      case None
      then show ?thesis using run on_disk s1 s2 Some ac by (simp add: update_music_file_def Let_def)
    next
      case (Some bc)
      obtain a2 ch2 where bc: "bc = (a2, ch2)" by (cases bc)
      have "backup_and_save e p backup (AudioData a2) lg2 w = ((True, True, Updated), w')"
        using run on_disk s1 s2 \<open>r1 = Some ac\<close> ac Some bc
        by (simp add: update_music_file_def Let_def split: if_splits)
      then have "disk w' p = Some (AudioData a2)" by (rule backup_and_save_updated)
      then show ?thesis using s1 s2 \<open>r1 = Some ac\<close> ac Some bc by blast
    qed
  qed
qed

lemma first_value_native_artist:
  "is_native_list (kind a) \<Longrightarrow> get_current_artist a = first_value (tags a ''artist'')"
  by (auto simp: get_current_artist_def is_native_list_def)

lemma first_value_native_album_artist:
  "is_native_list (kind a) \<Longrightarrow> get_current_album_artist a = first_value (tags a ''albumartist'')"
  by (auto simp: get_current_album_artist_def is_native_list_def)

lemma pending_kind_tags:
  "pending (kind (a\<lparr>tags := t\<rparr>)) cur = pending (kind a) cur"
  by simp

lemma parse_A_feat_B: "parse_artists ''A feat. B'' = [''A'', ''B'']"
  by code_simp

lemma ex_feat_run:
  "fst (update_music_file ex_env_ok ''y.flac'' False True ex_world_feat) = (True, True, Updated)"
  by (simp add: update_music_file_def Let_def field_step_def get_current_artist_def
      get_current_album_artist_def first_value_def ex_world_feat_def ex_flac_feat_def
      would_change_def is_native_list_def parse_A_feat_B update_artist_def ex_env_ok_def
      backup_and_save_def)

lemma ex_feat_disk:
  "disk (snd (update_music_file ex_env_ok ''y.flac'' False True ex_world_feat)) ''y.flac''
     = Some (AudioData (ex_flac_feat\<lparr>tags := (tags ex_flac_feat)(''artist'' \<mapsto> [''A'', ''B''])\<rparr>))"
  by (simp add: update_music_file_def Let_def field_step_def get_current_artist_def
      get_current_album_artist_def first_value_def ex_world_feat_def ex_flac_feat_def
      would_change_def is_native_list_def parse_A_feat_B update_artist_def ex_env_ok_def
      backup_and_save_def)

lemma ex_feat_new_neq:
  "ex_flac_feat\<lparr>tags := (tags ex_flac_feat)(''artist'' \<mapsto> [''A'', ''B''])\<rparr> \<noteq> ex_flac_feat"
proof
  assume "ex_flac_feat\<lparr>tags := (tags ex_flac_feat)(''artist'' \<mapsto> [''A'', ''B''])\<rparr> = ex_flac_feat"
  from arg_cong [OF this, of "\<lambda>a. tags a ''artist''"]
  show False by (simp add: ex_flac_feat_def)
qed

lemma ex_feat_mutated:
  "disk (snd (update_music_file ex_env_ok ''y.flac'' False True ex_world_feat)) ''y.flac''
     \<noteq> disk ex_world_feat ''y.flac''"
proof -
  have d0: "disk ex_world_feat ''y.flac'' = Some (AudioData ex_flac_feat)"
    by (simp add: ex_world_feat_def)
  show ?thesis unfolding ex_feat_disk d0 using ex_feat_new_neq by simp
qed

lemma strip_A_feat_B: "strip ''A feat. B'' = ''A feat. B''"
  by code_simp

lemma process_files_processed:
  "processed (fst (process_files f files (st, w))) = processed st + length files"
proof (induction files arbitrary: st w)
  case Nil
  then show ?case by simp
next
  case (Cons fl files)
  obtain r w' where fw: "f fl w = (r, w')" by (cases "f fl w")
  obtain s c m where r: "r = (s, c, m)" by (cases r)
  have "processed (tally r st) = processed st + 1" by (simp add: tally_def r Let_def)
  then show ?case using Cons [of "tally r st" w'] fw by simp
qed

lemma findall_genre_elems: "filter (\<lambda>el. etag el = ''genre'') (concat (map (\<lambda>c. c # descendants c) (genre_elems gs))) = genre_elems gs"
  by (induction gs) (auto simp: genre_elems_def)

lemma findall_no_genre:
  assumes "\<forall>c\<in>set cs. etag c \<noteq> ''genre'' \<and> findall ''genre'' c = []"
  shows "filter (\<lambda>el. etag el = ''genre'') (concat (map (\<lambda>c. c # descendants c) cs)) = []"
  using assms by (induction cs) (auto simp: findall_def)

lemma findall_replace_genres:
  assumes "replace_genres root gs = Some root2"
  shows "findall ''genre'' root2 = genre_elems gs"
proof -
  from assms have nn: "\<not> nested_genre root"
    and r2: "root2 = Elem (etag root) (etext root)
                   (filter (\<lambda>c. etag c \<noteq> ''genre'') (children root) @ genre_elems gs)"
    by (auto simp: replace_genres_def genre_elems_def split: if_splits)
  have "\<forall>c\<in>set (filter (\<lambda>c. etag c \<noteq> ''genre'') (children root)).
          etag c \<noteq> ''genre'' \<and> findall ''genre'' c = []"
    using nn by (auto simp: nested_genre_def list_ex_iff)
  then have "filter (\<lambda>el. etag el = ''genre'')
      (concat (map (\<lambda>c. c # descendants c) (filter (\<lambda>c. etag c \<noteq> ''genre'') (children root)))) = []"
    by (rule findall_no_genre)
  then show ?thesis unfolding r2 by (simp add: findall_def findall_genre_elems)
qed

lemma strip_Music: "strip ''Music'' = ''Music''"
  by code_simp

lemma strip_id: "strip ''id-1'' = ''id-1''"
  by code_simp

lemma ex_nfo_music_rewrite: "rewrite_artists_multi ex_nfo_music = ex_nfo_music"
  by (simp add: rewrite_artists_multi_def ex_nfo_music_def)

lemma ex_nfo_music_genres: "findall ''genre'' ex_nfo_music = [Elem ''genre'' (Some ''Music'') []]"
  by (simp add: findall_def ex_nfo_music_def)

lemma field_step_flag:
  assumes "field_step dry label current upd (a, ch, lg) = (Some (a', ch'), lg')"
  shows "ch' = (ch \<or> pending (kind a) current)"
  using assms
  by (auto simp: field_step_def pending_def Let_def split: option.splits if_splits)

lemma field_step_not_pending:
  "\<not> pending (kind a) current \<Longrightarrow> field_step dry label current upd (a, ch, lg) = (Some (a, ch), lg)"
  by (auto simp: field_step_def pending_def Let_def split: option.splits)

lemma backup_and_save_result:
  "fst (backup_and_save e p backup new lg w) \<noteq> (True, False, No_changes)"
  by (simp add: backup_and_save_def Let_def)

lemma field_step_kind:
  assumes "field_step dry label current upd (a, ch, lg) = (Some (a', ch'), lg')"
    and "\<not> pending (kind a) current"
  shows "a' = a"
  using assms field_step_not_pending [of a current dry label upd ch lg] by simp

lemma update_music_file_no_changes:
  assumes on_disk: "disk w p = Some (AudioData a)"
  shows "fst (update_music_file e p dry backup w) = (True, False, No_changes) \<longleftrightarrow>
           \<not> pending (kind a) (get_current_artist a) \<and> \<not> pending (kind a) (get_current_album_artist a)"
proof -
  obtain r1 lg1 where s1: "field_step dry ''Artist'' (get_current_artist a) (update_artist e)
        (a, False, log w) = (r1, lg1)"
    by (cases "field_step dry ''Artist'' (get_current_artist a) (update_artist e) (a, False, log w)")
  show ?thesis
  proof (cases r1)
    case None
    then have "pending (kind a) (get_current_artist a)"
      using s1 field_step_not_pending [of a "get_current_artist a" dry "''Artist''" "update_artist e" False "log w"]
      by auto
    moreover have "fst (update_music_file e p dry backup w) = (False, False, Failed_artist)"
      using on_disk s1 None by (simp add: update_music_file_def Let_def)
    ultimately show ?thesis by simp
  next
    case (Some ac)
    obtain a1 ch1 where ac: "ac = (a1, ch1)" by (cases ac)
    have f1: "ch1 = pending (kind a) (get_current_artist a)"
      using field_step_flag [of dry "''Artist''" "get_current_artist a" "update_artist e" a False "log w" a1 ch1 lg1]
        s1 Some ac by simp
    obtain r2 lg2 where s2: "field_step dry ''Album Artist'' (get_current_album_artist a)
        (update_album_artist e) (a1, ch1, lg1) = (r2, lg2)"
      by (cases "field_step dry ''Album Artist'' (get_current_album_artist a)
        (update_album_artist e) (a1, ch1, lg1)")
    show ?thesis
    proof (cases "pending (kind a) (get_current_artist a)")
      case True
      show ?thesis
      proof (cases r2)
        case None
        then have "fst (update_music_file e p dry backup w) = (False, False, Failed_album_artist)"
          using on_disk s1 s2 Some ac by (simp add: update_music_file_def Let_def)
        with True show ?thesis by simp
      next
        case (Some bc)
        obtain a2 ch2 where bc: "bc = (a2, ch2)" by (cases bc)
        have "ch2 = (ch1 \<or> pending (kind a1) (get_current_album_artist a))"
          using field_step_flag [of dry "''Album Artist''" "get_current_album_artist a"
              "update_album_artist e" a1 ch1 lg1 a2 ch2 lg2] s2 Some bc by simp
        with f1 True have ch2: "ch2" by simp
        have "fst (update_music_file e p dry backup w) \<noteq> (True, False, No_changes)"
          using on_disk s1 s2 \<open>r1 = Some ac\<close> ac Some bc ch2 backup_and_save_result
          by (simp add: update_music_file_def Let_def)
        with True show ?thesis by simp
      qed
    next
      case False
      then have a1: "a1 = a"
        using field_step_kind [of dry "''Artist''" "get_current_artist a" "update_artist e" a False "log w" a1 ch1 lg1]
          s1 Some ac by simp
      from False f1 have c1: "\<not> ch1" by simp
      show ?thesis
      proof (cases r2)
        case None
        then have "pending (kind a) (get_current_album_artist a)"
          using s2 a1 field_step_not_pending [of a "get_current_album_artist a" dry "''Album Artist''"
              "update_album_artist e" ch1 lg1]
          by auto
        moreover have "fst (update_music_file e p dry backup w) = (False, False, Failed_album_artist)"
          using on_disk s1 s2 Some ac None by (simp add: update_music_file_def Let_def)
        ultimately show ?thesis by simp
      next
        case (Some bc)
        obtain a2 ch2 where bc: "bc = (a2, ch2)" by (cases bc)
        have ch2: "ch2 = pending (kind a) (get_current_album_artist a)"
          using field_step_flag [of dry "''Album Artist''" "get_current_album_artist a"
              "update_album_artist e" a1 ch1 lg1 a2 ch2 lg2] s2 Some bc a1 c1 by simp
        show ?thesis
        proof (cases ch2)
          case True
          have "fst (update_music_file e p dry backup w) \<noteq> (True, False, No_changes)"
            using on_disk s1 s2 \<open>r1 = Some ac\<close> ac Some bc True backup_and_save_result
            by (simp add: update_music_file_def Let_def)
          with True ch2 show ?thesis by simp
        next
          case no: False
          have "fst (update_music_file e p dry backup w) = (True, False, No_changes)"
            using on_disk s1 s2 \<open>r1 = Some ac\<close> ac Some bc no
            by (simp add: update_music_file_def Let_def)
          with no ch2 False show ?thesis by simp
        qed
      qed
    qed
  qed
qed

lemma update_music_file_no_changes_world:
  assumes on_disk: "disk w p = Some (AudioData a)"
    and "\<not> pending (kind a) (get_current_artist a)" "\<not> pending (kind a) (get_current_album_artist a)"
  shows "update_music_file e p dry backup w = ((True, False, No_changes), w)"
  using assms by (simp add: update_music_file_def Let_def field_step_not_pending)

lemma pending_native:
  assumes "is_native_list k"
  shows "pending k (first_value t) \<longleftrightarrow>
           (\<exists>v vs. t = Some (v # vs) \<and> parse_artists v \<noteq> [] \<and> parse_artists v \<noteq> [v])"
proof (cases t)
  case None
  then show ?thesis by (simp add: pending_def first_value_def)
next
  case (Some l)
  show ?thesis
  proof (cases l)
    case Nil
    with Some show ?thesis by (simp add: pending_def first_value_def)
  next
    case (Cons v vs)
    have e: "parse_artists [] = []" by (simp add: parse_artists_def)
    show ?thesis
    proof (cases "parse_artists v")
      case Nil
      with Some Cons assms show ?thesis by (simp add: pending_def first_value_def would_change_def)
    next
      case (Cons x xs)
      then have "v \<noteq> []" using e by auto
      with Some \<open>l = v # vs\<close> Cons assms show ?thesis
        by (auto simp: pending_def first_value_def would_change_def)
    qed
  qed
qed

lemma process_files_append:
  "process_files f (xs @ ys) sw = process_files f ys (process_files f xs sw)"
proof (induction xs arbitrary: sw)
  case Nil
  show ?case by simp
next
  case (Cons x xs)
  obtain st w where sw: "sw = (st, w)" by (cases sw)
  obtain r w' where f: "f x w = (r, w')" by (cases "f x w")
  show ?case unfolding sw using f Cons by simp
qed

lemma tally_errors: "errors st \<le> errors (tally r st)"
  by (cases r) (simp add: tally_def Let_def)

lemma process_files_errors:
  "errors st \<le> errors (fst (process_files f files (st, w)))"
proof (induction files arbitrary: st w)
  case Nil
  show ?case by simp
next
  case (Cons x xs)
  obtain r w' where f: "f x w = (r, w')" by (cases "f x w")
  have "errors st \<le> errors (tally r st)" by (rule tally_errors)
  also have "\<dots> \<le> errors (fst (process_files f xs (tally r st, w')))" by (rule Cons.IH)
  finally show ?case using f by simp
qed

lemma update_nfo_file_malformed:
  assumes "disk w p = Some c" and "\<forall>root. c \<noteq> XmlData root"
  shows "update_nfo_file e p dry_run backup w = ((False, False, Xml_parse_error), w)"
  using assms by (cases c) (auto simp: update_nfo_file_def)

lemma ex_batch_nfo:
  "fst (update_nfo_file ex_env_ok ''album.nfo'' False True ex_world_batch) = (True, True, Updated) \<and>
   disk (snd (update_nfo_file ex_env_ok ''album.nfo'' False True ex_world_batch)) ''x.flac'' =
     Some (AudioData ex_flac_two)"
  by (simp add: update_nfo_file_def ex_world_batch_def Let_def change_lines_def findall_def ex_nfo_def
      text_change_def strip_A_feat_B parse_A_feat_B format_artists_to_semicolon_def
      backup_and_save_def ex_env_ok_def backup_path_def rewrite_tag_def)

lemma ex_flac_two_settled:
  "\<not> pending (kind ex_flac_two) (get_current_artist ex_flac_two) \<and>
   \<not> pending (kind ex_flac_two) (get_current_album_artist ex_flac_two)"
  by (simp add: pending_def get_current_artist_def get_current_album_artist_def first_value_def
      ex_flac_two_def would_change_def is_native_list_def parse_A)

lemma parse_artists_Nil: "parse_artists [] = []"
  by (simp add: parse_artists_def)

lemma tidy_settled: "tidy p \<Longrightarrow> p \<noteq> [] \<and> parse_artists p = [p]"
  using parse_artists_tidy [of p] by (simp add: tidy_def)










lemma etag_rewrite_node [simp]: "etag (rewrite_node tg el) = etag el"
  by (cases el) simp













section \<open>C5: a failing field update aborts the file\<close>

text \<open>
  C5.  When the adapter fails while a field of a music file is being updated, the file's
  update is abandoned: the result is the failure triple \<^verbatim>\<open>(False, False, "Failed to update \<dots>")\<close>,
  the disk is exactly as it was (nothing was saved and no backup was taken, since both
  come after the field updates), and the log ends with the attempt that failed, so no
  later field was attempted.  The first conjunct is the failure of the artist update,
  the second the failure of the album-artist update after the artist step went through.
\<close>

theorem write_failure_leaves_file_untouched:
  assumes on_disk: "disk w file_path = Some (AudioData a)"
  shows "(get_current_artist a = Some cur \<and> cur \<noteq> [] \<and>
          would_change (kind a) cur (parse_artists cur) \<and>
          update_artist e a (parse_artists cur) = None \<longrightarrow>
          update_music_file e file_path False backup w =
            ((False, False, Failed_artist),
             w\<lparr>log := log w @ [Printed ''Artist'' cur (new_format (kind a) (parse_artists cur)),
                                TagWrite ''Artist'']\<rparr>)) \<and>
         (field_step False ''Artist'' (get_current_artist a) (update_artist e) (a, False, log w)
            = (Some (b, chg), lg) \<and>
          get_current_album_artist a = Some cur_aa \<and> cur_aa \<noteq> [] \<and>
          would_change (kind b) cur_aa (parse_artists cur_aa) \<and>
          update_album_artist e b (parse_artists cur_aa) = None \<longrightarrow>
          update_music_file e file_path False backup w =
            ((False, False, Failed_album_artist),
             w\<lparr>log := lg @ [Printed ''Album Artist'' cur_aa (new_format (kind b) (parse_artists cur_aa)),
                              TagWrite ''Album Artist'']\<rparr>))"
proof (intro conjI impI)
  assume h: "get_current_artist a = Some cur \<and> cur \<noteq> [] \<and>
          would_change (kind a) cur (parse_artists cur) \<and>
          update_artist e a (parse_artists cur) = None"
  then have "field_step False ''Artist'' (get_current_artist a) (update_artist e) (a, False, log w) =
      (None, log w @ [Printed ''Artist'' cur (new_format (kind a) (parse_artists cur)), TagWrite ''Artist''])"
    by (intro field_step_fail) simp_all
  then show "update_music_file e file_path False backup w =
            ((False, False, Failed_artist),
             w\<lparr>log := log w @ [Printed ''Artist'' cur (new_format (kind a) (parse_artists cur)),
                                TagWrite ''Artist'']\<rparr>)"
    using on_disk by (simp add: update_music_file_def Let_def)
next
  assume h: "field_step False ''Artist'' (get_current_artist a) (update_artist e) (a, False, log w)
            = (Some (b, chg), lg) \<and>
          get_current_album_artist a = Some cur_aa \<and> cur_aa \<noteq> [] \<and>
          would_change (kind b) cur_aa (parse_artists cur_aa) \<and>
          update_album_artist e b (parse_artists cur_aa) = None"
  then have "field_step False ''Album Artist'' (get_current_album_artist a) (update_album_artist e)
        (b, chg, lg) =
      (None, lg @ [Printed ''Album Artist'' cur_aa (new_format (kind b) (parse_artists cur_aa)),
                    TagWrite ''Album Artist''])"
    by (intro field_step_fail) simp_all
  then show "update_music_file e file_path False backup w =
            ((False, False, Failed_album_artist),
             w\<lparr>log := lg @ [Printed ''Album Artist'' cur_aa (new_format (kind b) (parse_artists cur_aa)),
                              TagWrite ''Album Artist'']\<rparr>)"
    using on_disk h by (simp add: update_music_file_def Let_def)
qed

theorem write_failure_leaves_file_untouched_witness:
  "update_music_file ex_env ''x.m4a'' False True ex_world =
     ((False, False, Failed_album_artist),
      ex_world\<lparr>log := [Printed ''Album Artist'' ''A & B'' (AsText ''A;B''),
                        TagWrite ''Album Artist'']\<rparr>)"
proof -
  have d: "disk ex_world ''x.m4a'' = Some (AudioData ex_mp4)"
    by (simp add: ex_world_def)
  have s1: "field_step False ''Artist'' (get_current_artist ex_mp4) (update_artist ex_env)
              (ex_mp4, False, log ex_world) = (Some (ex_mp4, False), [])"
    by (simp add: field_step_def get_current_artist_def first_value_def ex_mp4_def ex_world_def)
  have c2: "get_current_album_artist ex_mp4 = Some ''A & B''"
    by (simp add: get_current_album_artist_def first_value_def ex_mp4_def)
  have wc: "would_change (kind ex_mp4) ''A & B'' (parse_artists ''A & B'')"
    by (simp add: parse_A_amp_B would_change_def is_native_list_def ex_mp4_def)
  have up: "update_album_artist ex_env ex_mp4 (parse_artists ''A & B'') = None"
    by (simp add: update_album_artist_def ex_env_def ex_mp4_def)
  have nf: "new_format (kind ex_mp4) (parse_artists ''A & B'') = AsText ''A;B''"
    by (simp add: parse_A_amp_B new_format_def is_native_list_def ex_mp4_def)
  from write_failure_leaves_file_untouched [OF d, where e = ex_env and b = ex_mp4
      and chg = False and lg = "[]" and cur_aa = "''A & B''" and backup = True]
  show ?thesis using s1 c2 wc up nf by simp
qed

section \<open>C6: the backup precedes the write\<close>

text \<open>
  C6.  With backups enabled, whenever a run of either per-file function leaves the file
  at \<open>p\<close> different from what it was, the events the run added are some printed lines
  and tag assignments followed by exactly one backup and then the one save call; the
  backup is at \<open>p @ ".backup_" @ timestamp\<close> and holds what \<open>p\<close> held before the run.
\<close>

theorem backup_precedes_save:
  assumes "f = update_music_file \<or> f = update_nfo_file"
    and "f e p False True w = (r, w')"
    and "disk w' p \<noteq> disk w p"
  shows "backup_path e p = p @ ''.backup_'' @ now e p \<and>
         (\<exists>pre. log w' = log w @ pre @ [Backup p (backup_path e p), SaveCalled p] \<and>
                (\<forall>ev\<in>set pre. \<not> is_io ev)) \<and>
         disk w' (backup_path e p) = disk w p"
proof -
  have "\<exists>pre. log w' = log w @ pre @ [Backup p (backup_path e p), SaveCalled p] \<and>
           (\<forall>ev\<in>set pre. \<not> is_io ev) \<and> disk w' (backup_path e p) = disk w p"
  proof (cases "f = update_music_file")
    case True
    then have "update_music_file e p False True w = (r, w')" using assms(2) by simp
    then show ?thesis using assms(3) by (rule update_music_file_backup)
  next
    case False
    then have "update_nfo_file e p False True w = (r, w')" using assms(1,2) by simp
    then show ?thesis using assms(3) by (rule update_nfo_file_backup)
  qed
  moreover have "backup_path e p = p @ ''.backup_'' @ now e p" by (simp add: backup_path_def)
  ultimately show ?thesis by blast
qed

text \<open>
  An instance: the FLAC file \<open>y.flac\<close> is rewritten, and the backup holds the old file.
\<close>

theorem backup_precedes_save_witness:
  "disk (snd (update_music_file ex_env_ok ''y.flac'' False True ex_world_feat))
     (''y.flac'' @ ''.backup_'' @ ''20240101_120000'') = Some (AudioData ex_flac_feat)"
proof -
  have r: "update_music_file ex_env_ok ''y.flac'' False True ex_world_feat =
      ((True, True, Updated), snd (update_music_file ex_env_ok ''y.flac'' False True ex_world_feat))"
    using ex_feat_run by (metis prod.collapse)
  have f: "update_music_file = update_music_file \<or> update_music_file = update_nfo_file"
    by (rule disjI1) (rule refl)
  have "disk (snd (update_music_file ex_env_ok ''y.flac'' False True ex_world_feat))
          (backup_path ex_env_ok ''y.flac'') = disk ex_world_feat ''y.flac''"
    using backup_precedes_save [where f = update_music_file, OF f r ex_feat_mutated] by (rule conjunct2 [THEN conjunct2])
  moreover have "backup_path ex_env_ok ''y.flac'' = ''y.flac'' @ ''.backup_'' @ ''20240101_120000''"
    by (simp add: backup_path_def ex_env_ok_def)
  moreover have "disk ex_world_feat ''y.flac'' = Some (AudioData ex_flac_feat)"
    by (simp add: ex_world_feat_def)
  ultimately show ?thesis by (simp only:)
qed

section \<open>C7: preview mode\<close>

text \<open>
  C7.  In preview (dry-run) mode neither per-file function changes anything on disk:
  no file is written and none is created, whatever the path holds.  For a readable file
  the result is \<^verbatim>\<open>(True, True, "Would be updated (dry run)")\<close> when some field is pending and
  \<^verbatim>\<open>(True, False, "No changes needed")\<close> otherwise, and the log gains exactly the lines
  that show each pending field with its proposed value.
\<close>

theorem preview_mode_changes_nothing:
  "disk (snd (update_music_file e p True backup w)) = disk w \<and>
   disk (snd (update_nfo_file e p True backup w)) = disk w \<and>
   (disk w p = Some (AudioData a) \<longrightarrow>
      update_music_file e p True backup w =
        ((True,
          pending (kind a) (get_current_artist a) \<or> pending (kind a) (get_current_album_artist a),
          if pending (kind a) (get_current_artist a) \<or> pending (kind a) (get_current_album_artist a)
          then Would_update else No_changes),
         w\<lparr>log := log w @ preview_line ''Artist'' (kind a) (get_current_artist a)
                        @ preview_line ''Album Artist'' (kind a) (get_current_album_artist a)\<rparr>)) \<and>
   (disk w p = Some (XmlData root) \<longrightarrow>
      update_nfo_file e p True backup w =
        ((True,
          change_lines ''Artist'' ''artist'' root @ change_lines ''Album Artist'' ''albumartist'' root \<noteq> [],
          if change_lines ''Artist'' ''artist'' root @ change_lines ''Album Artist'' ''albumartist'' root \<noteq> []
          then Would_update else No_changes),
         w\<lparr>log := log w @ change_lines ''Artist'' ''artist'' root
                        @ change_lines ''Album Artist'' ''albumartist'' root\<rparr>))"
  using update_music_file_dry_disk update_nfo_file_dry_disk update_music_file_dry update_nfo_file_dry
  by blast

text \<open>
  An instance for each of the two functions.
\<close>

theorem preview_mode_changes_nothing_witness:
  "update_music_file ex_env ''x.m4a'' True True ex_world =
     ((True, True, Would_update),
      ex_world\<lparr>log := [Printed ''Album Artist'' ''A & B'' (AsText ''A;B'')]\<rparr>) \<and>
   update_nfo_file ex_env ''album.nfo'' True True ex_world_nfo =
     ((True, True, Would_update),
      ex_world_nfo\<lparr>log := [Printed ''Artist'' ''A feat. B'' (AsText ''A;B'')]\<rparr>)"
proof -
  have d: "disk ex_world ''x.m4a'' = Some (AudioData ex_mp4)" by (simp add: ex_world_def)
  have d2: "disk ex_world_nfo ''album.nfo'' = Some (XmlData ex_nfo)" by (simp add: ex_world_nfo_def)
  have g1: "get_current_artist ex_mp4 = None"
    by (simp add: get_current_artist_def first_value_def ex_mp4_def)
  have g2: "get_current_album_artist ex_mp4 = Some ''A & B''"
    by (simp add: get_current_album_artist_def first_value_def ex_mp4_def)
  have k: "kind ex_mp4 = MP4" by (simp add: ex_mp4_def)
  have p2: "pending MP4 (Some ''A & B'')"
    by (simp add: pending_def would_change_def is_native_list_def parse_A_amp_B)
  have l1: "preview_line ''Artist'' MP4 None = []" by (simp add: preview_line_def)
  have l2: "preview_line ''Album Artist'' MP4 (Some ''A & B'') =
      [Printed ''Album Artist'' ''A & B'' (AsText ''A;B'')]"
    using p2 by (simp add: preview_line_def new_format_def is_native_list_def parse_A_amp_B)
  have c1: "change_lines ''Artist'' ''artist'' ex_nfo = [Printed ''Artist'' ''A feat. B'' (AsText ''A;B'')]"
    by (simp add: change_lines_def findall_def ex_nfo_def text_change_def strip_A_feat_B
        parse_A_feat_B format_artists_to_semicolon_def Let_def)
  have c2: "change_lines ''Album Artist'' ''albumartist'' ex_nfo = []"
    by (simp add: change_lines_def findall_def ex_nfo_def)
  from preview_mode_changes_nothing [of ex_env "''x.m4a''" True ex_world ex_mp4 ex_nfo]
  have m: "update_music_file ex_env ''x.m4a'' True True ex_world =
     ((True, True, Would_update),
      ex_world\<lparr>log := [Printed ''Album Artist'' ''A & B'' (AsText ''A;B'')]\<rparr>)"
    using d g1 g2 k p2 l1 l2 by (simp add: pending_def ex_world_def)
  from preview_mode_changes_nothing [of ex_env "''album.nfo''" True ex_world_nfo ex_mp4 ex_nfo]
  have n: "update_nfo_file ex_env ''album.nfo'' True True ex_world_nfo =
     ((True, True, Would_update),
      ex_world_nfo\<lparr>log := [Printed ''Artist'' ''A feat. B'' (AsText ''A;B'')]\<rparr>)"
    using d2 c1 c2 by (simp add: ex_world_nfo_def)
  from m n show ?thesis by simp
qed

section \<open>C8: a malformed sidecar document\<close>

text \<open>
  C8.  Let the batch reach the sidecar file \<open>p\<close> after the files \<open>before\<close>, with the counts
  \<open>st\<close> and the state \<open>w'\<close>, and let \<open>p\<close> hold something that is not a well-formed XML
  document.  Then \<^verbatim>\<open>update_nfo_file\<close> returns the parse failure and leaves the state as it
  was (no write, no backup); \<^verbatim>\<open>process_directory\<close> counts the file as processed and as an
  error and goes on, from that same state, with the remaining sidecar files and then with
  all the music files; in its result every file of the batch is counted as processed and
  the error count is at least one more than it was when \<open>p\<close> was reached.
\<close>

theorem malformed_nfo_counted_batch_continues:
  assumes pre: "process_files (\<lambda>f. update_nfo_file e f dry_run backup) before
                  (\<lparr>processed = 0, updated = 0, errors = 0, skipped = 0\<rparr>, w) = (st, w')"
    and bad: "disk w' p = Some c" "\<forall>root. c \<noteq> XmlData root"
  shows "update_nfo_file e p dry_run backup w' = ((False, False, Xml_parse_error), w') \<and>
         process_directory e music_files (before @ p # rest) dry_run backup w =
           (Some (fst (process_files (\<lambda>f. update_music_file e f dry_run backup) music_files
                    (process_files (\<lambda>f. update_nfo_file e f dry_run backup) rest
                       (st\<lparr>processed := processed st + 1, errors := errors st + 1\<rparr>, w')))),
            snd (process_files (\<lambda>f. update_music_file e f dry_run backup) music_files
                    (process_files (\<lambda>f. update_nfo_file e f dry_run backup) rest
                       (st\<lparr>processed := processed st + 1, errors := errors st + 1\<rparr>, w')))) \<and>
         (\<exists>total. fst (process_directory e music_files (before @ p # rest) dry_run backup w) = Some total \<and>
                   processed total = length music_files + length (before @ p # rest) \<and>
                   errors st + 1 \<le> errors total)"
proof -
  let ?nfo = "\<lambda>f. update_nfo_file e f dry_run backup"
  let ?music = "\<lambda>f. update_music_file e f dry_run backup"
  let ?st0 = "\<lparr>processed = 0, updated = 0, errors = 0, skipped = 0\<rparr>"
  let ?bump = "st\<lparr>processed := processed st + 1, errors := errors st + 1\<rparr>"
  let ?sw2 = "process_files ?nfo rest (?bump, w')"
  let ?sw3 = "process_files ?music music_files ?sw2"
  have u: "update_nfo_file e p dry_run backup w' = ((False, False, Xml_parse_error), w')"
    using bad by (rule update_nfo_file_malformed)
  have t: "tally (False, False, Xml_parse_error) st = ?bump"
    by (simp add: tally_def Let_def)
  have "process_files ?nfo (before @ p # rest) (?st0, w) = process_files ?nfo (p # rest) (st, w')"
    using pre by (simp add: process_files_append)
  also have "\<dots> = ?sw2" using u t by simp
  finally have n: "process_files ?nfo (before @ p # rest) (?st0, w) = ?sw2" .
  have d: "process_directory e music_files (before @ p # rest) dry_run backup w = (Some (fst ?sw3), snd ?sw3)"
    using n by (simp add: process_directory_def Let_def)
  have "processed (fst (process_files ?nfo (before @ p # rest) (?st0, w))) = length (before @ p # rest)"
    using process_files_processed [of ?nfo "before @ p # rest" ?st0 w] by simp
  then have p2: "processed (fst ?sw2) = length (before @ p # rest)" using n by simp
  have "processed (fst ?sw3) = processed (fst ?sw2) + length music_files"
    using process_files_processed [of ?music music_files "fst ?sw2" "snd ?sw2"] by simp
  with p2 have p3: "processed (fst ?sw3) = length music_files + length (before @ p # rest)" by simp
  have "errors ?bump \<le> errors (fst ?sw2)" by (rule process_files_errors)
  also have "\<dots> \<le> errors (fst ?sw3)"
    using process_files_errors [of "fst ?sw2" ?music music_files "snd ?sw2"] by simp
  finally have e3: "errors st + 1 \<le> errors (fst ?sw3)" by simp
  have x: "\<exists>total. fst (process_directory e music_files (before @ p # rest) dry_run backup w) = Some total \<and>
                   processed total = length music_files + length (before @ p # rest) \<and>
                   errors st + 1 \<le> errors total"
    using d p3 e3 by simp
  from u d x show ?thesis by blast
qed

text \<open>
  An instance: a batch of a malformed sidecar file, a well-formed one that is rewritten
  after it, and a music file that needs no change.
\<close>

theorem malformed_nfo_counted_batch_continues_witness:
  "update_nfo_file ex_env_ok ''bad.nfo'' False True ex_world_batch =
     ((False, False, Xml_parse_error), ex_world_batch) \<and>
   fst (process_directory ex_env_ok [''x.flac''] [''bad.nfo'', ''album.nfo''] False True ex_world_batch) =
     Some \<lparr>processed = 3, updated = 1, errors = 1, skipped = 1\<rparr>"
proof -
  let ?st0 = "\<lparr>processed = 0, updated = 0, errors = 0, skipped = 0\<rparr>"
  let ?r = "update_nfo_file ex_env_ok ''album.nfo'' False True ex_world_batch"
  have pre: "process_files (\<lambda>f. update_nfo_file ex_env_ok f False True) [] (?st0, ex_world_batch) =
      (?st0, ex_world_batch)" by simp
  have d: "disk ex_world_batch ''bad.nfo'' = Some OtherData" by (simp add: ex_world_batch_def)
  have x: "\<forall>root. OtherData \<noteq> XmlData root" by simp
  have n: "process_files (\<lambda>f. update_nfo_file ex_env_ok f False True) [''album.nfo'']
             (\<lparr>processed = 1, updated = 0, errors = 1, skipped = 0\<rparr>, ex_world_batch) =
           (\<lparr>processed = 2, updated = 1, errors = 1, skipped = 0\<rparr>, snd ?r)"
    using ex_batch_nfo by (simp add: case_prod_beta tally_def Let_def)
  have m: "update_music_file ex_env_ok ''x.flac'' False True (snd ?r) = ((True, False, No_changes), snd ?r)"
    using update_music_file_no_changes_world [of "snd ?r" "''x.flac''" ex_flac_two ex_env_ok False True]
      ex_batch_nfo ex_flac_two_settled by blast
  have s: "process_files (\<lambda>f. update_music_file ex_env_ok f False True) [''x.flac'']
             (\<lparr>processed = 2, updated = 1, errors = 1, skipped = 0\<rparr>, snd ?r) =
           (\<lparr>processed = 3, updated = 1, errors = 1, skipped = 1\<rparr>, snd ?r)"
    using m by (simp add: tally_def Let_def)
  have b: "?st0\<lparr>processed := processed ?st0 + 1, errors := errors ?st0 + 1\<rparr> =
           \<lparr>processed = 1, updated = 0, errors = 1, skipped = 0\<rparr>" by simp
  note run = malformed_nfo_counted_batch_continues [OF pre d x, where music_files = "[''x.flac'']"
      and rest = "[''album.nfo'']"]
  have u: "update_nfo_file ex_env_ok ''bad.nfo'' False True ex_world_batch =
     ((False, False, Xml_parse_error), ex_world_batch)"
    using run by (rule conjunct1)
  have "process_directory ex_env_ok [''x.flac''] ([] @ ''bad.nfo'' # [''album.nfo'']) False True ex_world_batch =
     (Some (fst (process_files (\<lambda>f. update_music_file ex_env_ok f False True) [''x.flac'']
              (process_files (\<lambda>f. update_nfo_file ex_env_ok f False True) [''album.nfo'']
                 (?st0\<lparr>processed := processed ?st0 + 1, errors := errors ?st0 + 1\<rparr>, ex_world_batch)))),
      snd (process_files (\<lambda>f. update_music_file ex_env_ok f False True) [''x.flac'']
              (process_files (\<lambda>f. update_nfo_file ex_env_ok f False True) [''album.nfo'']
                 (?st0\<lparr>processed := processed ?st0 + 1, errors := errors ?st0 + 1\<rparr>, ex_world_batch))))"
    using run by (rule conjunct2 [THEN conjunct1])
  then have "fst (process_directory ex_env_ok [''x.flac''] [''bad.nfo'', ''album.nfo''] False True ex_world_batch) =
     Some \<lparr>processed = 3, updated = 1, errors = 1, skipped = 1\<rparr>"
    unfolding b n s by simp
  with u show ?thesis by simp
qed

section \<open>C10: native multi-value fields are read through their first value\<close>

text \<open>
  C10.  For a FLAC or Ogg Vorbis file that a run updates, a field that stores the values
  \<open>v # vs\<close> is read as \<open>v\<close> alone; whether the field is rewritten is decided from \<open>v\<close>
  (\<open>pending\<close>), and when it is, the whole field becomes \<open>parse_artists v\<close>: the values
  \<open>vs\<close> are gone.  A field that is not pending keeps all its values.
\<close>

theorem native_field_replaced_from_first_value:
  assumes native: "is_native_list (kind a)"
    and on_disk: "disk w p = Some (AudioData a)"
    and run: "update_music_file e p False backup w = ((True, True, Updated), w')"
  shows "\<exists>a'. disk w' p = Some (AudioData a') \<and>
     (\<forall>v vs. tags a ''artist'' = Some (v # vs) \<longrightarrow>
        get_current_artist a = Some v \<and>
        tags a' ''artist'' = (if pending (kind a) (Some v) then Some (parse_artists v) else Some (v # vs))) \<and>
     (\<forall>u us. tags a ''albumartist'' = Some (u # us) \<longrightarrow>
        get_current_album_artist a = Some u \<and>
        tags a' ''albumartist'' = (if pending (kind a) (Some u) then Some (parse_artists u) else Some (u # us)))"
proof -
  from update_music_file_updated [OF on_disk run] obtain a1 a2 ch1 ch2 lg1 lg2 where
    s1: "field_step False ''Artist'' (get_current_artist a) (update_artist e) (a, False, log w)
             = (Some (a1, ch1), lg1)" and
    s2: "field_step False ''Album Artist'' (get_current_album_artist a) (update_album_artist e)
             (a1, ch1, lg1) = (Some (a2, ch2), lg2)" and
    d: "disk w' p = Some (AudioData a2)" by blast
  have a1: "(a1 = a \<and> \<not> pending (kind a) (get_current_artist a)) \<or>
      (\<exists>cur. get_current_artist a = Some cur \<and> pending (kind a) (get_current_artist a) \<and>
         a1 = a\<lparr>tags := (tags a)(''artist'' \<mapsto> parse_artists cur)\<rparr>)"
    using field_step_result [OF s1] native by (auto dest: update_artist_native)
  then have k1: "kind a1 = kind a" by auto
  have a2: "(a2 = a1 \<and> \<not> pending (kind a) (get_current_album_artist a)) \<or>
      (\<exists>cur. get_current_album_artist a = Some cur \<and> pending (kind a) (get_current_album_artist a) \<and>
         a2 = a1\<lparr>tags := (tags a1)(''albumartist'' \<mapsto> parse_artists cur)\<rparr>)"
    using field_step_result [OF s2] native k1 by (auto dest: update_album_artist_native)
  have art: "get_current_artist a = Some v \<and>
        tags a2 ''artist'' = (if pending (kind a) (Some v) then Some (parse_artists v) else Some (v # vs))"
    if "tags a ''artist'' = Some (v # vs)" for v vs
  proof -
    have g: "get_current_artist a = Some v"
      using that native by (simp add: first_value_native_artist first_value_def)
    have "tags a1 ''artist'' = (if pending (kind a) (Some v) then Some (parse_artists v) else Some (v # vs))"
      using a1 g that by auto
    moreover have "tags a2 ''artist'' = tags a1 ''artist''" using a2 by auto
    ultimately show ?thesis using g by simp
  qed
  have alb: "get_current_album_artist a = Some u \<and>
        tags a2 ''albumartist'' = (if pending (kind a) (Some u) then Some (parse_artists u) else Some (u # us))"
    if "tags a ''albumartist'' = Some (u # us)" for u us
  proof -
    have g: "get_current_album_artist a = Some u"
      using that native by (simp add: first_value_native_album_artist first_value_def)
    have "tags a1 ''albumartist'' = tags a ''albumartist''" using a1 by auto
    then show ?thesis using a2 g that by auto
  qed
  show ?thesis using d art alb by blast
qed

text \<open>
  An instance: the field \<open>["A feat. B", "C"]\<close> becomes \<open>["A", "B"]\<close>.
\<close>

theorem native_field_replaced_from_first_value_witness:
  "\<exists>a'. disk (snd (update_music_file ex_env_ok ''y.flac'' False True ex_world_feat)) ''y.flac''
           = Some (AudioData a') \<and>
        tags a' ''artist'' = Some [''A'', ''B'']"
proof -
  have n: "is_native_list (kind ex_flac_feat)" by (simp add: is_native_list_def ex_flac_feat_def)
  have d: "disk ex_world_feat ''y.flac'' = Some (AudioData ex_flac_feat)"
    by (simp add: ex_world_feat_def)
  have r: "update_music_file ex_env_ok ''y.flac'' False True ex_world_feat =
      ((True, True, Updated), snd (update_music_file ex_env_ok ''y.flac'' False True ex_world_feat))"
    using ex_feat_run by (metis prod.collapse)
  have t: "tags ex_flac_feat ''artist'' = Some (''A feat. B'' # [''C''])"
    by (simp add: ex_flac_feat_def)
  have p: "pending (kind ex_flac_feat) (Some ''A feat. B'')"
    by (simp add: pending_def would_change_def is_native_list_def ex_flac_feat_def parse_A_feat_B)
  from native_field_replaced_from_first_value [OF n d r] t p show ?thesis
    by (auto simp: parse_A_feat_B)
qed

section \<open>C3: the change decision for native lists\<close>

text \<open>
  C3, as stated, fails: the decision does not compare the parsed list with the native
  list.  A FLAC file whose artist field holds \<open>["A", "B"]\<close> is reported as needing no
  change, although the list parsed from what the engine read, \<open>["A"]\<close>, differs from the
  native list.
\<close>

theorem native_decision_ignores_later_values:
  "tags ex_flac_two ''artist'' = Some [''A'', ''B''] \<and>
   parse_artists ''A'' \<noteq> [''A'', ''B''] \<and>
   update_music_file ex_env ''x.flac'' False True ex_world_flac =
     ((True, False, No_changes), ex_world_flac)"
  by (simp add: parse_A ex_flac_two_def ex_world_flac_def update_music_file_def Let_def
      field_step_def get_current_artist_def get_current_album_artist_def first_value_def
      would_change_def is_native_list_def)

text \<open>
  C3 as amended: for the native-list formats (FLAC and Ogg Vorbis) the engine takes its
  decision from the first stored value of each of the two fields, artist and album artist.
  Whatever the mode, \<^verbatim>\<open>update_music_file\<close> reports \<^verbatim>\<open>"No changes needed"\<close> exactly when,
  for each field that has a first value \<open>v\<close>, \<open>parse_artists v\<close> is empty or is the
  one-element list \<open>[v]\<close>; the other stored values \<open>vs\<close> play no part, and in that case
  the file, the backups and the log are left as they were.
\<close>

theorem native_decision_from_first_value:
  assumes "disk w p = Some (AudioData a)" and "is_native_list (kind a)"
  shows "(fst (update_music_file e p dry_run backup w) = (True, False, No_changes) \<longleftrightarrow>
            (\<forall>v vs. tags a ''artist'' = Some (v # vs) \<longrightarrow>
               parse_artists v = [] \<or> parse_artists v = [v]) \<and>
            (\<forall>u us. tags a ''albumartist'' = Some (u # us) \<longrightarrow>
               parse_artists u = [] \<or> parse_artists u = [u])) \<and>
         (fst (update_music_file e p dry_run backup w) = (True, False, No_changes) \<longrightarrow>
            update_music_file e p dry_run backup w = ((True, False, No_changes), w))"
proof -
  have g1: "get_current_artist a = first_value (tags a ''artist'')"
    using assms(2) by (rule first_value_native_artist)
  have g2: "get_current_album_artist a = first_value (tags a ''albumartist'')"
    using assms(2) by (rule first_value_native_album_artist)
  have p1: "pending (kind a) (get_current_artist a) \<longleftrightarrow>
      (\<exists>v vs. tags a ''artist'' = Some (v # vs) \<and> parse_artists v \<noteq> [] \<and> parse_artists v \<noteq> [v])"
    unfolding g1 using assms(2) by (rule pending_native)
  have p2: "pending (kind a) (get_current_album_artist a) \<longleftrightarrow>
      (\<exists>v vs. tags a ''albumartist'' = Some (v # vs) \<and> parse_artists v \<noteq> [] \<and> parse_artists v \<noteq> [v])"
    unfolding g2 using assms(2) by (rule pending_native)
  have n: "fst (update_music_file e p dry_run backup w) = (True, False, No_changes) \<longleftrightarrow>
           \<not> pending (kind a) (get_current_artist a) \<and> \<not> pending (kind a) (get_current_album_artist a)"
    using assms(1) by (rule update_music_file_no_changes)
  have w: "fst (update_music_file e p dry_run backup w) = (True, False, No_changes) \<longrightarrow>
            update_music_file e p dry_run backup w = ((True, False, No_changes), w)"
    using n update_music_file_no_changes_world [OF assms(1)] by blast
  have "fst (update_music_file e p dry_run backup w) = (True, False, No_changes) \<longleftrightarrow>
            (\<forall>v vs. tags a ''artist'' = Some (v # vs) \<longrightarrow>
               parse_artists v = [] \<or> parse_artists v = [v]) \<and>
            (\<forall>u us. tags a ''albumartist'' = Some (u # us) \<longrightarrow>
               parse_artists u = [] \<or> parse_artists u = [u])"
    unfolding n p1 p2 by blast
  with w show ?thesis by blast
qed

text \<open>
  Two instances: a FLAC file whose artist field holds \<open>["A", "B"]\<close> is reported as needing
  no change, and one whose field holds \<open>["A feat. B", "C"]\<close> is not.
\<close>

theorem native_decision_from_first_value_witness:
  "update_music_file ex_env ''x.flac'' False True ex_world_flac = ((True, False, No_changes), ex_world_flac) \<and>
   fst (update_music_file ex_env_ok ''y.flac'' False True ex_world_feat) \<noteq> (True, False, No_changes)"
proof -
  have d: "disk ex_world_flac ''x.flac'' = Some (AudioData ex_flac_two)" by (simp add: ex_world_flac_def)
  have k: "is_native_list (kind ex_flac_two)" by (simp add: is_native_list_def ex_flac_two_def)
  have t1: "tags ex_flac_two ''artist'' = Some [''A'', ''B'']" by (simp add: ex_flac_two_def)
  have t2: "tags ex_flac_two ''albumartist'' = None" by (simp add: ex_flac_two_def)
  have d': "disk ex_world_feat ''y.flac'' = Some (AudioData ex_flac_feat)" by (simp add: ex_world_feat_def)
  have k': "is_native_list (kind ex_flac_feat)" by (simp add: is_native_list_def ex_flac_feat_def)
  have t1': "tags ex_flac_feat ''artist'' = Some [''A feat. B'', ''C'']" by (simp add: ex_flac_feat_def)
  from native_decision_from_first_value [OF d k, where e = ex_env and dry_run = False and backup = True]
  have 1: "update_music_file ex_env ''x.flac'' False True ex_world_flac = ((True, False, No_changes), ex_world_flac)"
    by (simp add: t1 t2 parse_A)
  from native_decision_from_first_value [OF d' k', where e = ex_env_ok and dry_run = False and backup = True]
  have 2: "fst (update_music_file ex_env_ok ''y.flac'' False True ex_world_feat) \<noteq> (True, False, No_changes)"
    by (simp add: t1' parse_A_feat_B)
  from 1 2 show ?thesis by simp
qed

section \<open>C9: genre enrichment\<close>

text \<open>
  C9, as stated, fails on the trigger: with the force flag off the fetch is also
  triggered by a single genre whose text is not the literal \<open>"Music"\<close>, here \<open>"music"\<close>.
\<close>

theorem genre_trigger_literal_only_fails:
  "needs_genre_fetch False [Elem ''genre'' (Some ''music'') []] \<and>
   \<not> spec_genre_trigger [Elem ''genre'' (Some ''music'') []]"
proof -
  have "strip ''music'' = ''music''" by code_simp
  then show ?thesis
    by (simp add: needs_genre_fetch_def spec_genre_trigger_def blank_def truthy_def lower_char_def)
qed

text \<open>
  C9 as amended.  With the force flag off the fetch is triggered exactly when no genre
  element exists, every genre element is empty or whitespace-only, or the only genre
  element reads \<open>music\<close> once trimmed and lowercased; when it is not triggered the run is
  the run without genre fetching; and when it is triggered, an identifier is found, the
  lookup returns the non-empty list \<open>gs\<close>, every genre element is a child of the root and
  the write goes through, the document written has exactly one genre element per entry
  of \<open>gs\<close>, in order.
\<close>

theorem genre_fetch_trigger_and_replacement:
  assumes on_disk: "disk w p = Some (XmlData root)"
    and root1: "root1 = (if dry_run then root else rewrite_artists_multi root)"
  shows "(needs_genre_fetch False existing \<longleftrightarrow>
            existing = [] \<or> list_all blank existing \<or>
            (\<exists>g. existing = [g] \<and> truthy (etext g) \<and>
                  map lower_char (strip (the (etext g))) = ''music'')) \<and>
         (\<not> needs_genre_fetch False (findall ''genre'' root1) \<longrightarrow>
            fm_update_nfo_file cat e p dry_run backup True False w =
            fm_update_nfo_file cat e p dry_run backup False False w) \<and>
         (needs_genre_fetch False (findall ''genre'' root1) \<and>
          resolve_mb_id cat root1 = Some mb_id \<and> mb_id \<noteq> [] \<and> mb_genres cat mb_id = gs \<and> gs \<noteq> [] \<and>
          \<not> nested_genre root1 \<and> \<not> dry_run \<and> \<not> copy_raises e \<and> \<not> save_raises e \<longrightarrow>
            (\<exists>w' root2. fm_update_nfo_file cat e p dry_run backup True False w = ((True, True, Updated), w') \<and>
               disk w' p = Some (XmlData root2) \<and> findall ''genre'' root2 = genre_elems gs))"
proof (intro conjI impI)
  show "needs_genre_fetch False existing \<longleftrightarrow>
            existing = [] \<or> list_all blank existing \<or>
            (\<exists>g. existing = [g] \<and> truthy (etext g) \<and>
                  map lower_char (strip (the (etext g))) = ''music'')"
    by (cases existing) (auto simp: needs_genre_fetch_def length_Suc_conv)
next
  assume "\<not> needs_genre_fetch False (findall ''genre'' root1)"
  then show "fm_update_nfo_file cat e p dry_run backup True False w =
            fm_update_nfo_file cat e p dry_run backup False False w"
    using on_disk root1 by (simp add: fm_update_nfo_file_def Let_def)
next
  assume h: "needs_genre_fetch False (findall ''genre'' root1) \<and>
          resolve_mb_id cat root1 = Some mb_id \<and> mb_id \<noteq> [] \<and> mb_genres cat mb_id = gs \<and> gs \<noteq> [] \<and>
          \<not> nested_genre root1 \<and> \<not> dry_run \<and> \<not> copy_raises e \<and> \<not> save_raises e"
  then obtain root2 where r2: "replace_genres root1 gs = Some root2"
    by (auto simp: replace_genres_def)
  have f: "findall ''genre'' root2 = genre_elems gs" using r2 by (rule findall_replace_genres)
  have run: "fm_update_nfo_file cat e p dry_run backup True False w =
      backup_and_save e p backup (XmlData root2) (log w @ change_lines_multi root) w"
    using on_disk root1 h r2 by (simp add: fm_update_nfo_file_def Let_def)
  have "\<exists>w'. backup_and_save e p backup (XmlData root2) (log w @ change_lines_multi root) w
          = ((True, True, Updated), w') \<and> disk w' p = Some (XmlData root2)"
    using h by (simp add: backup_and_save_def Let_def)
  then show "\<exists>w' root2. fm_update_nfo_file cat e p dry_run backup True False w = ((True, True, Updated), w') \<and>
               disk w' p = Some (XmlData root2) \<and> findall ''genre'' root2 = genre_elems gs"
    using run f by auto
qed

text \<open>
  An instance: the only genre is \<open>"Music"\<close> and the lookup returns \<open>["Rock", "Pop"]\<close>.
\<close>

theorem genre_fetch_trigger_and_replacement_witness:
  "\<exists>w' root2. fm_update_nfo_file ex_catalog ex_env_ok ''a.nfo'' False True True False ex_world_music
                 = ((True, True, Updated), w') \<and>
              disk w' ''a.nfo'' = Some (XmlData root2) \<and>
              findall ''genre'' root2 = genre_elems [''Rock'', ''Pop'']"
proof -
  have d: "disk ex_world_music ''a.nfo'' = Some (XmlData ex_nfo_music)"
    by (simp add: ex_world_music_def)
  have r: "ex_nfo_music = (if False then ex_nfo_music else rewrite_artists_multi ex_nfo_music)"
    by (simp add: ex_nfo_music_rewrite)
  have n: "needs_genre_fetch False (findall ''genre'' ex_nfo_music)"
    unfolding ex_nfo_music_genres
    by (simp add: needs_genre_fetch_def blank_def truthy_def strip_Music lower_char_def)
  have i: "resolve_mb_id ex_catalog ex_nfo_music = Some ''id-1''"
    by (simp add: resolve_mb_id_def get_musicbrainz_id_from_nfo_def find_first_def findall_def
        ex_nfo_music_def strip_id)
  have g: "mb_genres ex_catalog ''id-1'' = [''Rock'', ''Pop'']" by (simp add: ex_catalog_def)
  have nn: "\<not> nested_genre ex_nfo_music"
    by (simp add: nested_genre_def findall_def ex_nfo_music_def)
  have ok: "\<not> copy_raises ex_env_ok" "\<not> save_raises ex_env_ok" by (simp_all add: ex_env_ok_def)
  from genre_fetch_trigger_and_replacement [OF d r, where cat = ex_catalog and e = ex_env_ok
      and mb_id = "''id-1''" and gs = "[''Rock'', ''Pop'']" and backup = True]
  show ?thesis using n i g nn ok by simp
qed

section \<open>C4: a credit string without separators\<close>

text \<open>
  C4, as stated, fails: a comma is a split point, although it is not one of the join
  tokens.  The string \<open>"Earth, Wind"\<close> is not empty and no pattern matches anywhere in it,
  yet the parser returns two names and not the trimmed string.
\<close>

theorem comma_is_a_split_point:
  "\<not> has_separator ''Earth, Wind'' \<and> ''Earth, Wind'' \<noteq> [] \<and>
   parse_artists ''Earth, Wind'' = [''Earth'', ''Wind''] \<and>
   [strip ''Earth, Wind''] = [''Earth, Wind'']"
  by code_simp

text \<open>
  C4 as amended: for a credit string in which no separator pattern matches at any position
  and which holds no comma, \<^verbatim>\<open>parse_artists\<close> returns the one-element list of the trimmed
  string, and the empty list when trimming leaves nothing.
\<close>

theorem no_separator_no_comma_single:
  assumes "\<not> has_separator s" and "CHR '','' \<notin> set s"
  shows "parse_artists s = (if strip s = [] then [] else [strip s])"
proof -
  have n: "\<forall>ok\<in>set sep_oks. \<not> anym ok s" using assms(1) by (simp add: has_separator_anym)
  show ?thesis
  proof (cases "strip s = []")
    case True
    with assms(2) n show ?thesis by (simp add: strip_Nil_parse)
  next
    case False
    with n assms(2) have "parse_artists s = [strip s]" by (rule parse_artists_no_match)
    with False show ?thesis by simp
  qed
qed

text \<open>An instance: surrounding whitespace is trimmed.\<close>

theorem no_separator_no_comma_single_witness:
  "parse_artists ''  Solo Artist '' = [''Solo Artist'']"
proof -
  have a: "\<not> has_separator ''  Solo Artist ''" by code_simp
  have b: "CHR '','' \<notin> set ''  Solo Artist ''" by simp
  have c: "strip ''  Solo Artist '' = ''Solo Artist''" by code_simp
  from no_separator_no_comma_single [OF a b] show ?thesis by (simp add: c)
qed

section \<open>C2: where the parser splits\<close>




section \<open>C1: applying twice changes nothing more\<close>



end
